theory Spec2Isabelle
  imports Complex_Main "HOL-Library.Log_Nat" "HOL-Library.Sublist"
begin

section \<open>Strings and formatting\<close>

text \<open>
  A Go string is a sequence of bytes and \<open>len\<close> counts bytes, so a string is a
  \<^typ>\<open>char list\<close>. Lengths and slice indices are never negative in the two programs
  and stay far below \<open>2^63\<close>, so they are natural numbers.
\<close>

abbreviation NL :: char where
  "NL \<equiv> CHR 0x0A"

text \<open>The verb \<open>%d\<close> of \<open>fmt.Sprintf\<close> on a non-negative integer.\<close>

fun showNat :: "nat \<Rightarrow> string" where
  "showNat n =
     (if n < 10 then [''0123456789'' ! n]
      else showNat (n div 10) @ [''0123456789'' ! (n mod 10)])"

declare showNat.simps [simp del]

text \<open>\<open>strings.Join(elems, sep)\<close>.\<close>

fun strings_Join :: "string list \<Rightarrow> string \<Rightarrow> string" where
  "strings_Join [] sep = []"
| "strings_Join [x] sep = x"
| "strings_Join (x # y # ys) sep = x @ sep @ strings_Join (y # ys) sep"

text \<open>\<open>bytes.Split(data, []byte("\n"))\<close>: the pieces between the newlines, one more
  than there are newlines.\<close>

fun bytes_Split :: "string \<Rightarrow> string list" where
  "bytes_Split [] = [[]]"
| "bytes_Split (c # cs) =
     (if c = NL then [] # bytes_Split cs
      else (case bytes_Split cs of
              [] \<Rightarrow> [[c]]
            | l # ls \<Rightarrow> (c # l) # ls))"

text \<open>The slice expression \<open>s[i:j]\<close> for \<open>i \<le> j \<le> len(s)\<close>.\<close>

definition slice :: "'a list \<Rightarrow> nat \<Rightarrow> nat \<Rightarrow> 'a list" where
  "slice xs i j = take (j - i) (drop i xs)"

section \<open>The log filter of the analyzer\<close>

text \<open>
  An instant is a number of nanoseconds; \<open>After\<close> and \<open>Before\<close> of \<open>time.Time\<close> are the
  strict order. \<open>time.Parse(time.RFC3339, _)\<close> belongs to the Go library: it is a
  parameter, \<open>None\<close> when it returns an error.
\<close>

type_synonym instant = int

definition hour :: int where
  "hour = 3600 * 1000000000"

text \<open>One iteration of the loop over \<open>logLines\<close> (lines 48 to 59).\<close>

definition filterStep ::
  "(string \<Rightarrow> instant option) \<Rightarrow> instant \<Rightarrow> instant \<Rightarrow> string list \<Rightarrow> string \<Rightarrow> string list" where
  "filterStep parse startTime endTime filteredLogLines line =
     (if length line > 0 then
        (if length line \<ge> 25 then
           (case parse (take 25 line) of
              None \<Rightarrow> filteredLogLines
            | Some logTime \<Rightarrow>
                if startTime < logTime \<and> logTime < endTime
                then filteredLogLines @ [line] else filteredLogLines)
         else filteredLogLines)
      else filteredLogLines)"

definition filterLogLines ::
  "(string \<Rightarrow> instant option) \<Rightarrow> instant \<Rightarrow> instant \<Rightarrow> string \<Rightarrow> string list" where
  "filterLogLines parse startTime endTime logData =
     foldl (filterStep parse startTime endTime) [] (bytes_Split logData)"

text \<open>The condition of the specification for keeping a line.\<close>

definition retained ::
  "(string \<Rightarrow> instant option) \<Rightarrow> instant \<Rightarrow> instant \<Rightarrow> string \<Rightarrow> bool" where
  "retained parse startTime endTime line \<longleftrightarrow>
     25 \<le> length line \<and>
     (\<exists>t. parse (take 25 line) = Some t \<and> startTime < t \<and> t < endTime)"

section \<open>The completion client\<close>

text \<open>
  A value decoded by \<open>encoding/json\<close> into \<open>interface{}\<close>: \<open>nil\<close>, a \<open>bool\<close>, a
  \<open>float64\<close>, a \<open>string\<close>, a \<open>[]interface{}\<close> or a \<open>map[string]interface{}\<close>.
\<close>

datatype json =
    JNull
  | JBool bool
  | JNumber rat
  | JString string
  | JArray "json list"
  | JObject "string \<Rightarrow> json option"

text \<open>
  The type assertions \<open>v.(map[string]interface{})\<close>, \<open>v.(string)\<close> and
  \<open>v.([]interface{})\<close> on the result of a map lookup; a missing key gives \<open>nil\<close>, on
  which every assertion fails.
\<close>

fun asObject :: "json option \<Rightarrow> (string \<Rightarrow> json option) option" where
  "asObject (Some (JObject m)) = Some m"
| "asObject _ = None"

fun asString :: "json option \<Rightarrow> string option" where
  "asString (Some (JString s)) = Some s"
| "asString _ = None"

fun asArray :: "json option \<Rightarrow> json list option" where
  "asArray (Some (JArray xs)) = Some xs"
| "asArray _ = None"

text \<open>
  What one HTTP exchange gives the client: the request could not be marshalled, could
  not be sent, its body could not be read or decoded (each with the text of the Go
  error), or the body decoded to a map.
\<close>

datatype response =
    MarshalFailed string
  | SendFailed string
  | ReadFailed string
  | ParseFailed string
  | Decoded "string \<Rightarrow> json option"

text \<open>The text at \<open>choices[0].message.content\<close>, or the placeholder (lines 201 to 210).\<close>

definition extractContent :: "string \<Rightarrow> (string \<Rightarrow> json option) \<Rightarrow> string" where
  "extractContent placeholder result =
     (case asArray (result ''choices'') of
        None \<Rightarrow> placeholder
      | Some choices \<Rightarrow>
          (if length choices > 0 then
             (case asObject (Some (choices ! 0)) of
                None \<Rightarrow> placeholder
              | Some choice \<Rightarrow>
                  (case asObject (choice ''message'') of
                     None \<Rightarrow> placeholder
                   | Some message \<Rightarrow>
                       (case asString (message ''content'') of
                          None \<Rightarrow> placeholder
                        | Some content \<Rightarrow> content)))
           else placeholder))"

text \<open>The error reported by the service, if the decoded map has one (lines 190 to 198).\<close>

definition serviceError :: "(string \<Rightarrow> json option) \<Rightarrow> string option" where
  "serviceError result =
     (case asObject (result ''error'') of
        Some errorObj \<Rightarrow>
          Some (case asString (errorObj ''message'') of
                  Some msg \<Rightarrow> msg
                | None \<Rightarrow> ''Unknown error'')
      | None \<Rightarrow>
          (case asString (result ''error'') of
             Some errorStr \<Rightarrow> Some errorStr
           | None \<Rightarrow> None))"

text \<open>
  \<open>processLogChunk\<close>: the pair of the text and the \<open>isError\<close> flag. The request it sends
  holds \<open>logText\<close>; the exchange's outcome is the parameter \<open>resp\<close>.
\<close>

definition processLogChunk :: "response \<Rightarrow> string \<Rightarrow> string \<Rightarrow> string \<times> bool" where
  "processLogChunk resp logText chunkLabel =
     (case resp of
        MarshalFailed err \<Rightarrow> (''Failed to create JSON payload: '' @ err, True)
      | SendFailed err \<Rightarrow> (''Failed to send request: '' @ err, True)
      | ReadFailed err \<Rightarrow> (''Failed to read response: '' @ err, True)
      | ParseFailed err \<Rightarrow> (''Failed to parse response: '' @ err, True)
      | Decoded result \<Rightarrow>
          (case serviceError result of
             Some errorMsg \<Rightarrow> (''Error from AI service: '' @ errorMsg, True)
           | None \<Rightarrow>
               (''=== '' @ chunkLabel @ '' ==='' @ [NL, NL] @
                  extractContent (''No analysis received for '' @ chunkLabel @ ''.'') result,
                False)))"

section \<open>The report assembler\<close>

text \<open>
  The output file is written whole by \<open>os.WriteFile\<close>, whose error is logged and
  otherwise ignored: the model keeps the texts handed to it, in order. The text of
  \<open>saveProgress\<close> is \<open>progressText\<close>, that of \<open>compileFinalSummary\<close> is
  \<open>finalSummaryText\<close> at the ceiling \<open>maxCharsPerSummary\<close>.
\<close>

definition maxTokensPerChunk :: int where
  "maxTokensPerChunk = 1500"

definition maxCharsPerSummary :: nat where
  "maxCharsPerSummary = 20000"

definition analysisSep :: string where
  "analysisSep = [NL, NL] @ ''---'' @ [NL, NL]"

definition progressText :: "string list \<Rightarrow> string list \<Rightarrow> string" where
  "progressText analyses errors =
     (if length analyses > 0
      then ''## SUCCESSFUL ANALYSES'' @ [NL, NL] @
           foldl (\<lambda>buffer analysis. buffer @ analysis @ analysisSep) [] analyses
      else []) @
     (if length errors > 0
      then [NL, NL] @ ''## ERRORS'' @ [NL, NL] @
           foldl (\<lambda>buffer err. buffer @ err @ [NL, NL]) [] errors
      else [])"

definition analysesNote :: "nat \<Rightarrow> string" where
  "analysesNote k =
     [NL, NL] @ ''*Note: '' @ showNat k @
     '' additional analyses were truncated due to size limits.*'' @ [NL]"

definition errorsNote :: "nat \<Rightarrow> string" where
  "errorsNote k =
     [NL, NL] @ ''*Note: '' @ showNat k @
     '' additional errors were truncated due to size limits.*'' @ [NL]"

text \<open>
  The loop over \<open>analyses\<close> of \<open>compileFinalSummary\<close> (lines 260 to 270), from index
  \<open>i\<close> on: \<open>rest\<close> is \<open>analyses[i:]\<close>, \<open>n\<close> is \<open>len(analyses)\<close>. It returns the buffer and
  \<open>totalChars\<close>. The character ceiling is the first argument.
\<close>

fun appendAnalyses ::
  "nat \<Rightarrow> nat \<Rightarrow> nat \<Rightarrow> string list \<Rightarrow> nat \<Rightarrow> string \<Rightarrow> string \<times> nat" where
  "appendAnalyses maxChars n i [] totalChars buffer = (buffer, totalChars)"
| "appendAnalyses maxChars n i (analysis # rest) totalChars buffer =
     (if totalChars + length analysis > maxChars
      then (buffer @ analysesNote (n - i), totalChars)
      else appendAnalyses maxChars n (i + 1) rest (totalChars + length analysis)
             (buffer @ analysis @ analysisSep))"

text \<open>The loop over \<open>errors\<close> (lines 275 to 285).\<close>

fun appendErrors ::
  "nat \<Rightarrow> nat \<Rightarrow> nat \<Rightarrow> string list \<Rightarrow> nat \<Rightarrow> string \<Rightarrow> string \<times> nat" where
  "appendErrors maxChars n i [] totalChars buffer = (buffer, totalChars)"
| "appendErrors maxChars n i (err # rest) totalChars buffer =
     (if totalChars + length err > maxChars
      then (buffer @ errorsNote (n - i), totalChars)
      else appendErrors maxChars n (i + 1) rest (totalChars + length err)
             (buffer @ err @ [NL, NL]))"

definition summaryHeader :: "string \<Rightarrow> string list \<Rightarrow> string list \<Rightarrow> string" where
  "summaryHeader stamp analyses errors =
     ''# LOG ANALYSIS SUMMARY'' @ [NL] @
     ''Generated on '' @ stamp @ [NL, NL] @
     ''Processed '' @ showNat (length analyses) @ '' chunks of logs from the last hour.'' @ [NL] @
     (if length errors > 0
      then ''Encountered '' @ showNat (length errors) @ '' errors during processing.'' @ [NL]
      else []) @
     [NL] @ ''---'' @ [NL, NL] @
     ''## DETAILED FINDINGS'' @ [NL, NL]"

text \<open>
  The text \<open>compileFinalSummary\<close> writes, for a character ceiling and the formatted time
  \<open>stamp\<close> (\<open>time.Now().Format(time.RFC1123)\<close>).
\<close>

definition finalSummaryText :: "nat \<Rightarrow> string \<Rightarrow> string list \<Rightarrow> string list \<Rightarrow> string" where
  "finalSummaryText maxChars stamp analyses errors =
     (let (buffer, totalChars) =
            appendAnalyses maxChars (length analyses) 0 analyses 0
              (summaryHeader stamp analyses errors)
      in if length errors > 0
         then fst (appendErrors maxChars (length errors) 0 errors totalChars
                     (buffer @ [NL, NL] @ ''## ERRORS'' @ [NL, NL]))
         else buffer)"

definition compileFinalSummary :: "string \<Rightarrow> string list \<Rightarrow> string list \<Rightarrow> string" where
  "compileFinalSummary stamp analyses errors =
     finalSummaryText maxCharsPerSummary stamp analyses errors"

section \<open>Binary64 arithmetic\<close>

text \<open>
  The shrink step computes in \<open>float64\<close>. A finite binary64 number is a rational, and
  each IEEE 754 operation returns the exact result rounded to 53 significant bits, ties
  to even. The model rounds with an unbounded exponent: every value the analyzer
  computes lies between \<open>2^-62\<close> and \<open>2^63\<close>, far inside the normal range.
\<close>

text \<open>The integer \<open>k\<close> with \<open>2^k \<le> x < 2^(k+1)\<close>, for positive \<open>x\<close>.\<close>

definition floorlog2 :: "rat \<Rightarrow> int" where
  "floorlog2 x =
     (let (p, q) = quotient_of x; d = bitlen p - bitlen q
      in if 2 powi d \<le> x then d else d - 1)"

definition roundHalfEven :: "rat \<Rightarrow> int" where
  "roundHalfEven y =
     (let f = \<lfloor>y\<rfloor>; r = y - of_int f
      in if r < 1 / 2 then f
         else if 1 / 2 < r then f + 1
         else if even f then f else f + 1)"

definition fl64 :: "rat \<Rightarrow> rat" where
  "fl64 x =
     (if x = 0 then 0
      else (let e = floorlog2 \<bar>x\<bar> - 52
            in sgn x * of_int (roundHalfEven (\<bar>x\<bar> / 2 powi e)) * 2 powi e))"

text \<open>The conversion \<open>int(f)\<close> of a \<open>float64\<close>: the fraction is discarded.\<close>

definition truncToInt :: "rat \<Rightarrow> int" where
  "truncToInt x = (if 0 \<le> x then \<lfloor>x\<rfloor> else \<lceil>x\<rceil>)"

section \<open>The chunker\<close>

definition estimateTokens :: "string \<Rightarrow> int" where
  "estimateTokens text = int (length text) div 4"

text \<open>
  Lines 92 to 99: the end of the window after the shrink, for the window
  \<open>[i, endIdx)\<close> of estimate \<open>estimatedChunkTokens\<close> over \<open>len\<close> lines.
\<close>

definition shrunkEnd :: "nat \<Rightarrow> nat \<Rightarrow> int \<Rightarrow> nat \<Rightarrow> nat" where
  "shrunkEnd i endIdx estimatedChunkTokens len =
     (let reductionFactor =
            fl64 (fl64 (of_int maxTokensPerChunk) / fl64 (of_int estimatedChunkTokens));
          newEnd0 =
            int i + truncToInt (fl64 (fl64 (of_int (int endIdx - int i)) * reductionFactor));
          newEnd1 = (if newEnd0 \<le> int i then int i + 1 else newEnd0);
          newEnd2 = (if newEnd1 > int len then int len else newEnd1)
      in nat newEnd2)"

text \<open>Lines 80 to 107: the value of \<open>end\<close> when the chunk is sent.\<close>

definition chunkWindow :: "string list \<Rightarrow> nat \<Rightarrow> nat \<Rightarrow> nat" where
  "chunkWindow filteredLogLines linesPerChunk i =
     (let endIdx = (if i + linesPerChunk > length filteredLogLines
                    then length filteredLogLines else i + linesPerChunk);
          chunkText = strings_Join (slice filteredLogLines i endIdx) [NL];
          estimatedChunkTokens = estimateTokens chunkText
      in if estimatedChunkTokens > maxTokensPerChunk
         then shrunkEnd i endIdx estimatedChunkTokens (length filteredLogLines)
         else endIdx)"

text \<open>
  A write of the output file: by \<open>saveProgress\<close> (a checkpoint) or by
  \<open>compileFinalSummary\<close>, with the text handed to \<open>os.WriteFile\<close>.
\<close>

datatype fileWrite = Checkpoint string | FinalReport string

text \<open>
  The state of the run: the two lists of \<open>main\<close>, the writes of the output file so
  far, in order, and the \<open>chunkLines\<close> of every chunk sent so far.
\<close>

record run =
  successfulAnalyses :: "string list"
  errorMessages :: "string list"
  written :: "fileWrite list"
  chunks :: "string list list"

definition emptyRun :: run where
  "emptyRun = \<lparr>successfulAnalyses = [], errorMessages = [], written = [], chunks = []\<rparr>"

definition partLabel :: "nat \<Rightarrow> nat \<Rightarrow> nat \<Rightarrow> string" where
  "partLabel i linesPerChunk chunkCount =
     ''Part '' @ showNat (i div linesPerChunk + 1) @ ''/'' @ showNat chunkCount"

text \<open>
  One iteration of the loop of \<open>main\<close> (lines 80 to 126). The exchange of the
  \<open>k\<close>-th call of \<open>processLogChunk\<close> is \<open>exchange k\<close>.
\<close>

definition chunkStep ::
  "(nat \<Rightarrow> response) \<Rightarrow> string list \<Rightarrow> nat \<Rightarrow> nat \<Rightarrow> nat \<Rightarrow> run \<Rightarrow> run" where
  "chunkStep exchange filteredLogLines linesPerChunk chunkCount i s =
     (let endIdx = chunkWindow filteredLogLines linesPerChunk i;
          chunkLines = slice filteredLogLines i endIdx;
          chunkText = strings_Join chunkLines [NL];
          (analysis, isError) =
            processLogChunk (exchange (length (chunks s))) chunkText
              (partLabel i linesPerChunk chunkCount);
          s1 = (if isError
                then s\<lparr>errorMessages := errorMessages s @ [analysis]\<rparr>
                else s\<lparr>successfulAnalyses := successfulAnalyses s @ [analysis]\<rparr>)
      in s1\<lparr>written := written s1 @
              [Checkpoint (progressText (successfulAnalyses s1) (errorMessages s1))],
            chunks := chunks s1 @ [chunkLines]\<rparr>)"

text \<open>
  The loop \<open>for i := 0; i < len(filteredLogLines); i += linesPerChunk\<close>. With
  \<open>linesPerChunk = 0\<close> the program has panicked before the loop; the function stops
  there.
\<close>

function chunkLoop ::
  "(nat \<Rightarrow> response) \<Rightarrow> string list \<Rightarrow> nat \<Rightarrow> nat \<Rightarrow> nat \<Rightarrow> run \<Rightarrow> run" where
  "chunkLoop exchange filteredLogLines linesPerChunk chunkCount i s =
     (if i < length filteredLogLines \<and> 0 < linesPerChunk
      then chunkLoop exchange filteredLogLines linesPerChunk chunkCount (i + linesPerChunk)
             (chunkStep exchange filteredLogLines linesPerChunk chunkCount i s)
      else s)"
  by pat_completeness auto
termination
  by (relation "measure (\<lambda>(exchange, ls, lpc, cnt, i, s). length ls - i)") auto

declare chunkLoop.simps [simp del]

section \<open>The analyzer\<close>

datatype failure = Fatal string | DivisionByZero

text \<open>The quotient \<open>a / b\<close> of two Go \<open>int\<close>s: truncated, a panic when \<open>b\<close> is zero.\<close>

definition goDiv :: "int \<Rightarrow> int \<Rightarrow> failure + int" where
  "goDiv a b = (if b = 0 then Inl DivisionByZero else Inr (sgn a * sgn b * (\<bar>a\<bar> div \<bar>b\<bar>)))"

text \<open>
  What the analyzer reads from outside: the clock at the start, the result of
  \<open>os.ReadFile\<close> on the log (\<open>Inl\<close> the error), the timestamp parser, the exchanges
  with the service, and the formatted time of the final summary.
\<close>

record env =
  clock :: instant
  logFile :: "string + string"
  time_Parse :: "string \<Rightarrow> instant option"
  exchanges :: "nat \<Rightarrow> response"
  finalStamp :: string

text \<open>Lines 65 to 70: the value of \<open>linesPerChunk\<close> for \<open>n\<close> filtered lines.\<close>

definition linesPerChunkFor :: "nat \<Rightarrow> nat" where
  "linesPerChunkFor n = (if n \<le> 30 then n else 30)"

text \<open>\<open>main\<close> of the analyzer: the run at the end, and the failure that ended it early.\<close>

definition analyzerMain :: "env \<Rightarrow> run \<times> failure option" where
  "analyzerMain ev =
     (case logFile ev of
        Inl err \<Rightarrow> (emptyRun, Some (Fatal (''Failed to read log file: '' @ err)))
      | Inr logData \<Rightarrow>
          (let endTime = clock ev;
               startTime = endTime - hour;
               filteredLogLines = filterLogLines (time_Parse ev) startTime endTime logData;
               linesPerChunk = linesPerChunkFor (length filteredLogLines)
           in case goDiv (int (length filteredLogLines) + int linesPerChunk - 1)
                         (int linesPerChunk) of
                Inl panic \<Rightarrow> (emptyRun, Some panic)
              | Inr chunkCount \<Rightarrow>
                  (let s = chunkLoop (exchanges ev) filteredLogLines linesPerChunk
                             (nat chunkCount) 0 emptyRun
                   in if length (successfulAnalyses s) > 0
                      then (s\<lparr>written := written s @
                                [FinalReport
                                   (compileFinalSummary (finalStamp ev) (successfulAnalyses s)
                                      (errorMessages s))]\<rparr>, None)
                      else (s, None))))"

section \<open>The enhancer\<close>

text \<open>Lines 39 to 44 of the enhancer's \<open>main\<close>: the loop from index \<open>i\<close> on.\<close>

function lineStart :: "nat \<Rightarrow> string \<Rightarrow> string" where
  "lineStart i summaryData =
     (if i < 1000 \<and> i < length summaryData
      then (if summaryData ! i = NL then drop (i + 1) summaryData
            else lineStart (i + 1) summaryData)
      else summaryData)"
  by pat_completeness auto
termination
  by (relation "measure (\<lambda>(i, d). 1000 - i)") auto

declare lineStart.simps [simp del]

text \<open>Lines 34 to 46.\<close>

definition truncateSummary :: "string \<Rightarrow> string" where
  "truncateSummary summaryData =
     (if length summaryData > 100000
      then (if length summaryData > 100000
            then lineStart 0 (drop (length summaryData - 100000) summaryData)
            else summaryData)
      else summaryData)"

text \<open>\<open>strings.Contains(s, substr)\<close>.\<close>

fun strings_Contains :: "string \<Rightarrow> string \<Rightarrow> bool" where
  "strings_Contains [] substr = (substr = [])"
| "strings_Contains (c # cs) substr =
     (prefix substr (c # cs) \<or> strings_Contains cs substr)"

definition enhancedHeader :: "string \<Rightarrow> string" where
  "enhancedHeader stamp =
     ''# ENHANCED LOG SUMMARY WITH RECOMMENDATIONS'' @ [NL] @
     ''Generated on '' @ stamp @ [NL, NL]"

definition fallbackSection :: string where
  "fallbackSection =
     [NL, NL] @ ''## RECOMMENDATIONS'' @ [NL, NL] @
     ''The AI did not provide specific recommendations. Please review the summary to determine appropriate actions.'' @ [NL]"

text \<open>
  \<open>strings.ToUpper\<close> belongs to the Go library. On a string of ASCII bytes it
  upper-cases the letters \<open>a\<close> to \<open>z\<close> byte by byte. On any other string it is
  \<open>strings.Map(unicode.ToUpper, s)\<close>: the runes are decoded from UTF-8 (a byte that
  starts no valid encoding is the rune U+FFFD), each is mapped and the results are
  encoded again. \<open>unicode.ToUpper\<close> upper-cases an ASCII rune itself and looks every
  other rune up in the Unicode tables; those tables are the parameter \<open>table\<close>. Bytes
  and runes are natural numbers here.
\<close>

definition asciiUpper :: "char \<Rightarrow> char" where
  "asciiUpper c =
     (case map_of (zip ''abcdefghijklmnopqrstuvwxyz'' ''ABCDEFGHIJKLMNOPQRSTUVWXYZ'') c of
        Some u \<Rightarrow> u
      | None \<Rightarrow> c)"

definition isASCII :: "string \<Rightarrow> bool" where
  "isASCII s = list_all (\<lambda>c. (of_char c :: nat) < 128) s"

definition continuation :: "nat \<Rightarrow> bool" where
  "continuation b \<longleftrightarrow> 128 \<le> b \<and> b < 192"

definition runeError :: nat where
  "runeError = 65533"

text \<open>\<open>utf8.DecodeRune\<close>: the rune at the head of the bytes and its width.\<close>

fun decodeRune :: "nat list \<Rightarrow> nat \<times> nat" where
  "decodeRune [] = (runeError, 1)"
| "decodeRune (b0 # bs) =
     (if b0 < 128 then (b0, 1)
      else if 194 \<le> b0 \<and> b0 < 224 then
        (case bs of
           b1 # _ \<Rightarrow>
             if continuation b1 then ((b0 - 192) * 64 + (b1 - 128), 2) else (runeError, 1)
         | _ \<Rightarrow> (runeError, 1))
      else if 224 \<le> b0 \<and> b0 < 240 then
        (case bs of
           b1 # b2 # _ \<Rightarrow>
             if (if b0 = 224 then 160 else 128) \<le> b1 \<and> b1 \<le> (if b0 = 237 then 159 else 191) \<and>
                continuation b2
             then ((b0 - 224) * 4096 + (b1 - 128) * 64 + (b2 - 128), 3)
             else (runeError, 1)
         | _ \<Rightarrow> (runeError, 1))
      else if 240 \<le> b0 \<and> b0 < 245 then
        (case bs of
           b1 # b2 # b3 # _ \<Rightarrow>
             if (if b0 = 240 then 144 else 128) \<le> b1 \<and> b1 \<le> (if b0 = 244 then 143 else 191) \<and>
                continuation b2 \<and> continuation b3
             then ((b0 - 240) * 262144 + (b1 - 128) * 4096 + (b2 - 128) * 64 + (b3 - 128), 4)
             else (runeError, 1)
         | _ \<Rightarrow> (runeError, 1))
      else (runeError, 1))"

declare decodeRune.simps [simp del]

function utf8_decode :: "nat list \<Rightarrow> nat list" where
  "utf8_decode bs =
     (if bs = [] then []
      else fst (decodeRune bs) # utf8_decode (drop (max 1 (snd (decodeRune bs))) bs))"
  by pat_completeness auto
termination
  by (relation "measure length") auto

declare utf8_decode.simps [simp del]

text \<open>\<open>utf8.AppendRune\<close>: surrogates and runes beyond U+10FFFF are written as U+FFFD.\<close>

definition encodeRune :: "nat \<Rightarrow> nat list" where
  "encodeRune r =
     (if r < 128 then [r]
      else if r < 2048 then [192 + r div 64, 128 + r mod 64]
      else if (55296 \<le> r \<and> r < 57344) \<or> 1114111 < r then [239, 191, 189]
      else if r < 65536 then [224 + r div 4096, 128 + (r div 64) mod 64, 128 + r mod 64]
      else [240 + r div 262144, 128 + (r div 4096) mod 64, 128 + (r div 64) mod 64,
            128 + r mod 64])"

definition unicode_ToUpper :: "(nat \<Rightarrow> nat) \<Rightarrow> nat \<Rightarrow> nat" where
  "unicode_ToUpper table r =
     (if r < 128 then (if 97 \<le> r \<and> r \<le> 122 then r - 32 else r) else table r)"

definition strings_ToUpper :: "(nat \<Rightarrow> nat) \<Rightarrow> string \<Rightarrow> string" where
  "strings_ToUpper table s =
     (if isASCII s then map asciiUpper s
      else map char_of
             (concat (map (\<lambda>r. encodeRune (unicode_ToUpper table r))
                        (utf8_decode (map of_char s)))))"

text \<open>Lines 134 to 146.\<close>

definition formatEnhanced :: "(nat \<Rightarrow> nat) \<Rightarrow> string \<Rightarrow> string \<Rightarrow> string" where
  "formatEnhanced table stamp enhancedSummary =
     enhancedHeader stamp @ enhancedSummary @
     (if \<not> strings_Contains (strings_ToUpper table enhancedSummary) ''RECOMMENDATION''
      then fallbackSection else [])"

text \<open>\<open>enhanceSummaryWithRecommendations\<close>: \<open>Inl\<close> is the text of the returned error.\<close>

definition enhanceSummaryWithRecommendations ::
  "(nat \<Rightarrow> nat) \<Rightarrow> string \<Rightarrow> response \<Rightarrow> string \<Rightarrow> string + string" where
  "enhanceSummaryWithRecommendations table stamp resp summaryText =
     (case resp of
        MarshalFailed err \<Rightarrow> Inl (''failed to create JSON payload: '' @ err)
      | SendFailed err \<Rightarrow> Inl (''failed to send request: '' @ err)
      | ReadFailed err \<Rightarrow> Inl (''failed to read response: '' @ err)
      | ParseFailed err \<Rightarrow> Inl (''failed to parse response: '' @ err)
      | Decoded result \<Rightarrow>
          (case serviceError result of
             Some errorMsg \<Rightarrow> Inl (''error from AI service: '' @ errorMsg)
           | None \<Rightarrow>
               Inr (formatEnhanced table stamp
                      (extractContent ''No summary generated.'' result))))"

text \<open>
  What the enhancer reads from outside: the result of \<open>os.ReadFile\<close> on the summary,
  the library's upper-case table, the one exchange with the service, the formatted
  time, and the error of \<open>os.WriteFile\<close> if it fails.
\<close>

record enhancerEnv =
  summaryFile :: "string + string"
  upperCaseTable :: "nat \<Rightarrow> nat"
  enhancerExchange :: response
  enhancerStamp :: string
  writeError :: "string option"

text \<open>
  \<open>main\<close> of the enhancer: the text handed to \<open>enhanceSummaryWithRecommendations\<close>
  (if the run got that far), and either the fatal message or the text written to the
  output file.
\<close>

definition enhancerMain :: "enhancerEnv \<Rightarrow> string option \<times> (failure + string)" where
  "enhancerMain ev =
     (case summaryFile ev of
        Inl err \<Rightarrow> (None, Inl (Fatal (''Failed to read summary file: '' @ err)))
      | Inr summaryData \<Rightarrow>
          (let summaryText = truncateSummary summaryData
           in case enhanceSummaryWithRecommendations (upperCaseTable ev) (enhancerStamp ev)
                     (enhancerExchange ev) summaryText of
                Inl err \<Rightarrow> (Some summaryText, Inl (Fatal (''Failed to enhance summary: '' @ err)))
              | Inr enhancedSummary \<Rightarrow>
                  (case writeError ev of
                     Some err \<Rightarrow>
                       (Some summaryText, Inl (Fatal (''Failed to write output file: '' @ err)))
                   | None \<Rightarrow> (Some summaryText, Inr enhancedSummary))))"

section \<open>Notions of the specification\<close>

text \<open>
  The cumulative size of the analyses up to and including index \<open>j\<close>, and the index at
  which it first exceeds a ceiling.
\<close>

definition cumulativeSize :: "string list \<Rightarrow> nat \<Rightarrow> nat" where
  "cumulativeSize analyses j = sum_list (map length (take (j + 1) analyses))"

definition firstExceeds :: "nat \<Rightarrow> string list \<Rightarrow> nat \<Rightarrow> bool" where
  "firstExceeds maxChars analyses i \<longleftrightarrow>
     i < length analyses \<and> maxChars < cumulativeSize analyses i \<and>
     (\<forall>j < i. cumulativeSize analyses j \<le> maxChars)"

text \<open>
  The number a string of decimal digits denotes, and the decimal digits.
\<close>

definition decimalValue :: "string \<Rightarrow> nat" where
  "decimalValue s = foldl (\<lambda>v c. 10 * v + (of_char c - 48)) 0 s"

definition isDigit :: "char \<Rightarrow> bool" where
  "isDigit c \<longleftrightarrow> c \<in> set ''0123456789''"

text \<open>
  Containing a word case-insensitively: some substring has the word's length and agrees
  with it letter by letter, where two characters agree when they are equal or one is
  the lower-case and the other the upper-case form of the same ASCII letter.
\<close>

definition sameLetter :: "char \<Rightarrow> char \<Rightarrow> bool" where
  "sameLetter a b \<longleftrightarrow>
     a = b \<or>
     (a, b) \<in> set (zip ''abcdefghijklmnopqrstuvwxyz'' ''ABCDEFGHIJKLMNOPQRSTUVWXYZ'') \<or>
     (b, a) \<in> set (zip ''abcdefghijklmnopqrstuvwxyz'' ''ABCDEFGHIJKLMNOPQRSTUVWXYZ'')"

definition containsIgnoringCase :: "string \<Rightarrow> string \<Rightarrow> bool" where
  "containsIgnoringCase s word \<longleftrightarrow> (\<exists>u w v. s = u @ w @ v \<and> list_all2 sameLetter w word)"

text \<open>
  A run whose output file holds a checkpoint: every write so far is a checkpoint, there
  is one for each chunk sent and at least one, and the last one holds the two lists as
  they are now.
\<close>

fun isCheckpoint :: "fileWrite \<Rightarrow> bool" where
  "isCheckpoint (Checkpoint t) = True"
| "isCheckpoint (FinalReport t) = False"

definition checkpointed :: "run \<Rightarrow> bool" where
  "checkpointed s \<longleftrightarrow>
     list_all isCheckpoint (written s) \<and> length (written s) = length (chunks s) \<and>
     written s \<noteq> [] \<and>
     last (written s) = Checkpoint (progressText (successfulAnalyses s) (errorMessages s))"

text \<open>
  The number of chunks announced in the labels (line 78); what \<open>processLogChunk\<close>
  returns for the \<open>k\<close>-th chunk sent, a pair of the text and \<open>isError\<close>, and these
  results for all the chunks in order; a run whose two lists hold the texts of the
  results so far, the successes in one and the failures in the other.
\<close>

definition chunkCountFor :: "nat \<Rightarrow> nat" where
  "chunkCountFor n = (n + linesPerChunkFor n - 1) div linesPerChunkFor n"

definition exchangeResult ::
  "(nat \<Rightarrow> response) \<Rightarrow> nat \<Rightarrow> string list list \<Rightarrow> nat \<Rightarrow> string \<times> bool" where
  "exchangeResult exchange chunkCount cs k =
     processLogChunk (exchange k) (strings_Join (cs ! k) [NL])
       (''Part '' @ showNat (k + 1) @ ''/'' @ showNat chunkCount)"

definition chunkResults :: "(nat \<Rightarrow> response) \<Rightarrow> nat \<Rightarrow> string list list \<Rightarrow> (string \<times> bool) list" where
  "chunkResults exchange chunkCount cs =
     map (exchangeResult exchange chunkCount cs) [0..<length cs]"

definition recorded :: "(nat \<Rightarrow> response) \<Rightarrow> nat \<Rightarrow> run \<Rightarrow> bool" where
  "recorded exchange chunkCount s \<longleftrightarrow>
     successfulAnalyses s =
       map fst (filter (\<lambda>p. \<not> snd p) (chunkResults exchange chunkCount (chunks s))) \<and>
     errorMessages s =
       map fst (filter snd (chunkResults exchange chunkCount (chunks s)))"

section \<open>Concrete inputs\<close>

text \<open>A parser that accepts one timestamp, for running the filter on a concrete file.\<close>

definition demoParse :: "string \<Rightarrow> instant option" where
  "demoParse s = (if s = ''2024-01-01T00:00:30+00:00'' then Some 30 else None)"

definition demoLog :: string where
  "demoLog =
     ''short'' @ [NL] @ ''2024-01-01T00:00:30+00:00 boot'' @ [NL] @
     ''2024-01-01T00:09:30+00:00 late''"

text \<open>Two environments of the analyzer: an empty log, and the log above with a
  service that cannot be reached.\<close>

definition emptyLogEnv :: env where
  "emptyLogEnv =
     \<lparr>clock = 100, logFile = Inr [], time_Parse = demoParse,
      exchanges = (\<lambda>k. SendFailed ''connection refused''),
      finalStamp = ''Mon, 01 Jan 2024 00:01:40 UTC''\<rparr>"

definition demoEnv :: env where
  "demoEnv =
     \<lparr>clock = 100, logFile = Inr demoLog, time_Parse = demoParse,
      exchanges = (\<lambda>k. SendFailed ''connection refused''),
      finalStamp = ''Mon, 01 Jan 2024 00:01:40 UTC''\<rparr>"

text \<open>
  Two entries of Go's upper-case table beyond ASCII: U+0131 (dotless i) has the upper
  case \<open>I\<close> and U+017F (long s) the upper case \<open>S\<close>. The other runes are left as they
  are, which is not Go's table; no input below holds one. A reply that spells the word
  with U+0131.
\<close>

definition sampleTable :: "nat \<Rightarrow> nat" where
  "sampleTable r = (if r = 305 then 73 else if r = 383 then 83 else r)"

definition dotlessReply :: string where
  "dotlessReply = ''recommendat'' @ [CHR 0xC4, CHR 0xB1] @ ''on: none''"

text \<open>The decoded response \<open>{"choices":[{"message":{"content":X}}]}\<close>.\<close>

definition contentResponse :: "string \<Rightarrow> string \<Rightarrow> json option" where
  "contentResponse X =
     [''choices'' \<mapsto> JArray [JObject [''message'' \<mapsto> JObject [''content'' \<mapsto> JString X]]]]"

text \<open>The analyzer on the log above with a service that answers every chunk.\<close>

definition okEnv :: env where
  "okEnv =
     \<lparr>clock = 100, logFile = Inr demoLog, time_Parse = demoParse,
      exchanges = (\<lambda>k. Decoded (contentResponse ''All quiet.'')),
      finalStamp = ''Mon, 01 Jan 2024 00:01:40 UTC''\<rparr>"

text \<open>An environment of the enhancer with a short report.\<close>

definition demoEnhancerEnv :: enhancerEnv where
  "demoEnhancerEnv =
     \<lparr>summaryFile = Inr ''short report'', upperCaseTable = sampleTable,
      enhancerExchange = SendFailed ''connection refused'',
      enhancerStamp = ''Mon, 01 Jan 2024 00:01:40 UTC'', writeError = None\<rparr>"

text \<open>
  Log lines of a chosen length: the accepted timestamp followed by \<open>n\<close> copies of a
  character; an environment of the analyzer for a given log; a window of thirty lines
  of 250 bytes; a log of two lines of 3002 bytes.
\<close>

definition paddedLine :: "char \<Rightarrow> nat \<Rightarrow> string" where
  "paddedLine c n = ''2024-01-01T00:00:30+00:00'' @ replicate n c"

definition lineEnv :: "string \<Rightarrow> env" where
  "lineEnv logData =
     \<lparr>clock = 100, logFile = Inr logData, time_Parse = demoParse,
      exchanges = (\<lambda>k. SendFailed ''connection refused''),
      finalStamp = ''Mon, 01 Jan 2024 00:01:40 UTC''\<rparr>"

definition thirtyLines :: "string list" where
  "thirtyLines = replicate 30 (paddedLine CHR ''x'' 225)"

definition twoLongLines :: string where
  "twoLongLines = paddedLine CHR ''a'' 2977 @ [NL] @ paddedLine CHR ''b'' 2977"

section \<open>Theorems\<close>

lemma foldl_filterStep:
  "foldl (filterStep parse s e) acc ls = acc @ filter (retained parse s e) ls"
  by (induction ls arbitrary: acc)
     (auto simp: filterStep_def retained_def split: option.splits)

subsection \<open>The filter\<close>

text \<open>
  C3. For every log file and every window, the filter keeps, in order, exactly the lines
  of the file that are at least 25 bytes long and whose first 25 bytes parse to an
  instant strictly after the start and strictly before the end of the window
  (\<^const>\<open>retained\<close>); no line shorter than 25 bytes is among the lines kept.
\<close>

theorem filter_retains_iff:
  "filterLogLines parse startTime endTime logData =
     filter (retained parse startTime endTime) (bytes_Split logData)
   \<and> (\<forall>line \<in> set (bytes_Split logData).
         length line < 25 \<longrightarrow> line \<notin> set (filterLogLines parse startTime endTime logData))"
  by (auto simp: filterLogLines_def foldl_filterStep retained_def)

theorem filter_retains_iff_witness:
  "filterLogLines demoParse 0 100 demoLog = [''2024-01-01T00:00:30+00:00 boot'']
   \<and> ''short'' \<in> set (bytes_Split demoLog)
   \<and> length ''short'' < 25
   \<and> ''short'' \<notin> set (filterLogLines demoParse 0 100 demoLog)"
  using filter_retains_iff [of demoParse 0 100 demoLog]
  by (simp add: retained_def demoParse_def demoLog_def)

subsection \<open>The completion client\<close>

text \<open>
  C5. For the decoded response \<open>{"choices":[{"message":{"content":X}}]}\<close> the client
  returns a success (\<open>isError\<close> is false) whose text is the chunk label's heading followed
  by \<open>X\<close>, \<open>X\<close> being the text extracted; for \<open>{"error":{"message":bad}}\<close> it returns a
  failure whose text carries \<open>bad\<close>; for \<open>{"choices":[]}\<close> it returns a success whose
  text carries the placeholder "No analysis received for (label).".
\<close>

theorem completion_client_parsing:
  "processLogChunk
     (Decoded [''choices'' \<mapsto>
        JArray [JObject [''message'' \<mapsto> JObject [''content'' \<mapsto> JString X]]]])
     logText label
   = (''=== '' @ label @ '' ==='' @ [NL, NL] @ X, False)
   \<and> extractContent placeholder
       [''choices'' \<mapsto>
          JArray [JObject [''message'' \<mapsto> JObject [''content'' \<mapsto> JString X]]]] = X
   \<and> processLogChunk (Decoded [''error'' \<mapsto> JObject [''message'' \<mapsto> JString bad]])
       logText label
   = (''Error from AI service: '' @ bad, True)
   \<and> processLogChunk (Decoded [''choices'' \<mapsto> JArray []]) logText label
   = (''=== '' @ label @ '' ==='' @ [NL, NL] @ ''No analysis received for '' @ label @ ''.'',
      False)"
  by (simp add: processLogChunk_def serviceError_def extractContent_def)

subsection \<open>Rounding to binary64\<close>

text \<open>
  \<^const>\<open>floorlog2\<close> is the binary exponent, a rounding moves a number by at most half a
  unit in the last place, and so \<^const>\<open>fl64\<close> has a relative error of at most
  \<open>2^-53\<close>.
\<close>

lemma floorlog2_bounds:
  assumes "0 < x"
  shows "2 powi floorlog2 x \<le> x \<and> x < 2 powi (floorlog2 x + 1)"
proof -
  obtain p q where pq: "quotient_of x = (p, q)" by (cases "quotient_of x")
  have q: "0 < q" using pq by (rule quotient_of_denom_pos)
  have x: "x = of_int p / of_int q" using pq by (rule quotient_of_div)
  have p: "0 < p" using assms q x by (simp add: zero_less_divide_iff)
  define d where "d = bitlen p - bitlen q"
  have bp: "2 ^ nat (bitlen p - 1) \<le> p" "p < 2 ^ nat (bitlen p)"
    using bitlen_bounds[OF p] by auto
  have bq: "2 ^ nat (bitlen q - 1) \<le> q" "q < 2 ^ nat (bitlen q)"
    using bitlen_bounds[OF q] by auto
  have lp: "1 \<le> bitlen p" using p bitlen_eq_zero_iff[of p] bitlen_nonneg[of p] by linarith
  have lq: "1 \<le> bitlen q" using q bitlen_eq_zero_iff[of q] bitlen_nonneg[of q] by linarith
  have P1: "(2::rat) powi (bitlen p - 1) \<le> of_int p"
  proof -
    have "(of_int (2 ^ nat (bitlen p - 1)) :: rat) \<le> of_int p"
      using bp(1) by (simp only: of_int_le_iff)
    moreover have "(2::rat) powi (bitlen p - 1) = 2 ^ nat (bitlen p - 1)"
      using lp by (simp add: power_int_def)
    ultimately show ?thesis by simp
  qed
  have P2: "of_int p < (2::rat) powi (bitlen p)"
  proof -
    have "(of_int p :: rat) < of_int (2 ^ nat (bitlen p))"
      using bp(2) by (simp only: of_int_less_iff)
    moreover have "(2::rat) powi (bitlen p) = 2 ^ nat (bitlen p)"
      using lp by (simp add: power_int_def)
    ultimately show ?thesis by simp
  qed
  have Q1: "(2::rat) powi (bitlen q - 1) \<le> of_int q"
  proof -
    have "(of_int (2 ^ nat (bitlen q - 1)) :: rat) \<le> of_int q"
      using bq(1) by (simp only: of_int_le_iff)
    moreover have "(2::rat) powi (bitlen q - 1) = 2 ^ nat (bitlen q - 1)"
      using lq by (simp add: power_int_def)
    ultimately show ?thesis by simp
  qed
  have Q2: "of_int q < (2::rat) powi (bitlen q)"
  proof -
    have "(of_int q :: rat) < of_int (2 ^ nat (bitlen q))"
      using bq(2) by (simp only: of_int_less_iff)
    moreover have "(2::rat) powi (bitlen q) = 2 ^ nat (bitlen q)"
      using lq by (simp add: power_int_def)
    ultimately show ?thesis by simp
  qed
  have qpos: "(0::rat) < of_int q" using q by simp
  have pw: "\<And>k. (0::rat) < 2 powi k" by simp
  have lower: "(2::rat) powi (d - 1) < x"
  proof -
    have "(2::rat) powi (d - 1) = 2 powi (bitlen p - 1) / 2 powi (bitlen q)"
      unfolding d_def by (simp add: power_int_diff)
    also have "\<dots> \<le> of_int p / 2 powi (bitlen q)"
      using P1 by (simp add: divide_right_mono)
    also have "\<dots> < of_int p / of_int q"
      using Q2 qpos p by (intro frac_less2) simp_all
    finally show ?thesis by (simp add: x)
  qed
  have upper: "x < (2::rat) powi (d + 1)"
  proof -
    have "x = of_int p / of_int q" by (rule x)
    also have "\<dots> < 2 powi (bitlen p) / of_int q"
      using P2 qpos by (simp add: divide_strict_right_mono)
    also have "\<dots> \<le> 2 powi (bitlen p) / 2 powi (bitlen q - 1)"
      using Q1 by (intro frac_le) simp_all
    also have "\<dots> = 2 powi (d + 1)"
      unfolding d_def
      by (simp add: power_int_diff[symmetric] algebra_simps)
    finally show ?thesis .
  qed
  have fl: "floorlog2 x = (if 2 powi d \<le> x then d else d - 1)"
    by (simp add: floorlog2_def pq d_def)
  show ?thesis
  proof (cases "2 powi d \<le> x")
    case True
    then show ?thesis using upper fl by simp
  next
    case False
    then show ?thesis using lower fl by simp
  qed
qed


lemma roundHalfEven_err: "\<bar>of_int (roundHalfEven y) - y\<bar> \<le> 1 / 2"
proof -
  have "of_int \<lfloor>y\<rfloor> \<le> y" and "y < of_int \<lfloor>y\<rfloor> + 1" by linarith+
  then show ?thesis
    by (auto simp: roundHalfEven_def Let_def)
qed

lemma fl64_err:
  assumes "0 < x"
  shows "\<bar>fl64 x - x\<bar> \<le> x / 2 ^ 53"
proof -
  define e where "e = floorlog2 x - 52"
  define s :: rat where "s = 2 powi e"
  define m where "m = roundHalfEven (x / s)"
  have spos: "0 < s" by (simp add: s_def)
  have fl: "fl64 x = of_int m * s"
    using assms by (simp add: fl64_def Let_def e_def s_def m_def)
  have "s = 2 powi floorlog2 x / 2 ^ 52"
    by (simp add: s_def e_def power_int_diff)
  also have "\<dots> \<le> x / 2 ^ 52"
    using floorlog2_bounds[OF assms] by (simp add: divide_right_mono)
  finally have sle: "s \<le> x / 2 ^ 52" .
  have "fl64 x - x = (of_int m - x / s) * s"
    using spos by (simp add: fl field_simps)
  then have "\<bar>fl64 x - x\<bar> = \<bar>of_int m - x / s\<bar> * s"
    using spos by (simp add: abs_mult)
  also have "\<dots> \<le> (1 / 2) * s"
    using roundHalfEven_err[of "x / s"] spos
    by (intro mult_right_mono) (simp_all add: m_def)
  also have "\<dots> \<le> (1 / 2) * (x / 2 ^ 52)"
    using sle by simp
  also have "\<dots> = x / 2 ^ 53" by simp
  finally show ?thesis .
qed

lemma fl64_upper:
  assumes "0 < x"
  shows "fl64 x \<le> x * (1 + 1 / 2 ^ 53)"
proof -
  have "fl64 x \<le> x + x / 2 ^ 53"
    using fl64_err[OF assms] by linarith
  also have "\<dots> = x * (1 + 1 / 2 ^ 53)" by (simp add: distrib_left)
  finally show ?thesis .
qed

lemma fl64_lower:
  assumes "0 < x"
  shows "x * (1 - 1 / 2 ^ 53) \<le> fl64 x"
proof -
  have "x * (1 - 1 / 2 ^ 53) = x - x / 2 ^ 53" by (simp add: right_diff_distrib)
  also have "\<dots> \<le> fl64 x"
    using fl64_err[OF assms] by linarith
  finally show ?thesis .
qed

lemma fl64_pos: "0 < x \<Longrightarrow> 0 < fl64 x"
proof -
  assume x: "0 < x"
  have "0 < x * (1 - 1 / 2 ^ 53)" using x by simp
  then show ?thesis using fl64_lower[OF x] by linarith
qed

text \<open>
  The product of the shrink step, \<open>float64(n) * (1500 / float64(est))\<close> with its three
  roundings, lies within a factor \<open>(1 \<plusminus> 2^-53)^3\<close> of the exact \<open>n * 1500 / est\<close>.
\<close>

lemma shrink_product_bounds:
  fixes N :: rat and est :: int
  assumes est: "1500 < est" and N: "0 < N"
  shows "N * 1500 / of_int est * ((1 - 1 / 2 ^ 53) * (1 - 1 / 2 ^ 53) / (1 + 1 / 2 ^ 53))
           \<le> fl64 (N * fl64 (1500 / fl64 (of_int est)))"
    and "fl64 (N * fl64 (1500 / fl64 (of_int est)))
           \<le> N * 1500 / of_int est * ((1 + 1 / 2 ^ 53) * (1 + 1 / 2 ^ 53) / (1 - 1 / 2 ^ 53))"
proof -
  define E :: rat where "E = of_int est"
  define lo :: rat where "lo = 1 - 1 / 2 ^ 53"
  define hi :: rat where "hi = 1 + 1 / 2 ^ 53"
  define b where "b = fl64 E"
  define q where "q = 1500 / b"
  define r where "r = fl64 q"
  define p where "p = fl64 (N * r)"
  have E: "0 < E" using est by (simp add: E_def)
  have lo: "0 < lo" and hi: "0 < hi" by (simp_all add: lo_def hi_def)
  have b1: "E * lo \<le> b" and b2: "b \<le> E * hi"
    using fl64_lower[OF E] fl64_upper[OF E] by (simp_all add: b_def lo_def hi_def)
  have bpos: "0 < b" using fl64_pos[OF E] by (simp add: b_def)
  have qpos: "0 < q" using bpos by (simp add: q_def)
  have q1: "1500 / (E * hi) \<le> q"
    unfolding q_def using b2 bpos E hi by (intro divide_left_mono) simp_all
  have q2: "q \<le> 1500 / (E * lo)"
    unfolding q_def using b1 bpos E lo by (intro divide_left_mono) simp_all
  have r1: "q * lo \<le> r" and r2: "r \<le> q * hi"
    using fl64_lower[OF qpos] fl64_upper[OF qpos] by (simp_all add: r_def lo_def hi_def)
  have rpos: "0 < r" using fl64_pos[OF qpos] by (simp add: r_def)
  have ypos: "0 < N * r" using N rpos by simp
  have p1: "N * r * lo \<le> p" and p2: "p \<le> N * r * hi"
    using fl64_lower[OF ypos] fl64_upper[OF ypos] by (simp_all add: p_def lo_def hi_def)
  have "N * (1500 / (E * hi) * lo) * lo \<le> N * (q * lo) * lo"
    using q1 N lo by (intro mult_right_mono mult_left_mono) simp_all
  also have "\<dots> \<le> N * r * lo"
    using r1 N lo by (intro mult_right_mono mult_left_mono) simp_all
  also have "\<dots> \<le> p" by (rule p1)
  finally have L: "N * (1500 / (E * hi) * lo) * lo \<le> p" .
  have "p \<le> N * r * hi" by (rule p2)
  also have "\<dots> \<le> N * (q * hi) * hi"
    using r2 N hi by (intro mult_right_mono mult_left_mono) simp_all
  also have "\<dots> \<le> N * (1500 / (E * lo) * hi) * hi"
    using q2 N hi by (intro mult_right_mono mult_left_mono) simp_all
  finally have U: "p \<le> N * (1500 / (E * lo) * hi) * hi" .
  have "N * 1500 / E * (lo * lo / hi) = N * (1500 / (E * hi) * lo) * lo"
    by simp
  then show "N * 1500 / of_int est * ((1 - 1 / 2 ^ 53) * (1 - 1 / 2 ^ 53) / (1 + 1 / 2 ^ 53))
           \<le> fl64 (N * fl64 (1500 / fl64 (of_int est)))"
    using L unfolding p_def r_def q_def b_def E_def lo_def hi_def by simp
  have "N * 1500 / E * (hi * hi / lo) = N * (1500 / (E * lo) * hi) * hi"
    by simp
  then show "fl64 (N * fl64 (1500 / fl64 (of_int est)))
           \<le> N * 1500 / of_int est * ((1 + 1 / 2 ^ 53) * (1 + 1 / 2 ^ 53) / (1 - 1 / 2 ^ 53))"
    using U unfolding p_def r_def q_def b_def E_def lo_def hi_def by simp
qed

text \<open>
  When \<open>est\<close> does not divide 45000, the exact quotient \<open>45000 / est\<close> is at least
  \<open>1 / est\<close> away from every integer, more than the roundings can move it.
\<close>

lemma shrink_floor_nondiv:
  fixes est :: int
  assumes est: "1500 < est" and nd: "\<not> est dvd 45000"
  shows "truncToInt (fl64 (30 * fl64 (1500 / fl64 (of_int est)))) = 45000 div est"
proof -
  define E :: rat where "E = of_int est"
  define k where "k = 45000 div est"
  define m where "m = 45000 mod est"
  define p where "p = fl64 (30 * fl64 (1500 / fl64 (of_int est)))"
  define clo :: rat where "clo = (1 - 1 / 2 ^ 53) * (1 - 1 / 2 ^ 53) / (1 + 1 / 2 ^ 53)"
  define chi :: rat where "chi = (1 + 1 / 2 ^ 53) * (1 + 1 / 2 ^ 53) / (1 - 1 / 2 ^ 53)"
  define T :: rat where "T = 45000 / E"
  have E: "0 < E" using est by (simp add: E_def)
  have m0: "m \<noteq> 0" using nd by (simp add: m_def dvd_eq_mod_eq_0)
  have "0 \<le> m" "m < est" using est by (simp_all add: m_def)
  with m0 have m1: "1 \<le> m" "m + 1 \<le> est" by linarith+
  have dec: "k * est + m = 45000" by (simp add: k_def m_def)
  have k0: "0 \<le> k" using est by (simp add: k_def pos_imp_zdiv_nonneg_iff)
  have lo: "T * clo \<le> p" and hi: "p \<le> T * chi"
    using shrink_product_bounds[OF est, of 30]
    by (simp_all add: p_def T_def clo_def chi_def E_def)
  have c1: "45000 * (1 - clo) \<le> 1" by (simp add: clo_def)
  have c2: "45000 * (chi - 1) < 1" by (simp add: chi_def)
  have kE: "of_int k = of_int (k * est) / E" using E by (simp add: E_def)
  have k1E: "of_int k + 1 = of_int ((k + 1) * est) / E"
    using E by (simp add: E_def field_simps)
  have "k * est \<le> 44999" using dec m1 by linarith
  then have "(of_int (k * est) :: rat) \<le> of_int 44999"
    by (rule iffD2[OF of_int_le_iff])
  then have "of_int (k * est) / E \<le> (45000 - 1) / E"
    using E by (intro divide_right_mono) simp_all
  then have "of_int k \<le> (45000 - 1) / E" by (simp only: kE [symmetric])
  also have "\<dots> = T - 1 / E" by (simp add: T_def diff_divide_distrib)
  also have "\<dots> \<le> T - 45000 * (1 - clo) / E"
    using c1 E by (simp add: divide_right_mono)
  also have "\<dots> = T * clo" by (simp add: T_def algebra_simps diff_divide_distrib)
  finally have "of_int k \<le> T * clo" .
  then have low: "of_int k \<le> p" using lo by (rule order_trans)
  have "T * chi = T + 45000 * (chi - 1) / E"
    by (simp add: T_def algebra_simps diff_divide_distrib add_divide_distrib)
  also have "\<dots> < T + 1 / E"
    using c2 E by (simp add: divide_strict_right_mono)
  also have "\<dots> = (45000 + 1) / E" by (simp add: T_def add_divide_distrib)
  also have "\<dots> \<le> of_int ((k + 1) * est) / E"
  proof -
    have "(k + 1) * est = k * est + est" by (simp add: algebra_simps)
    then have "45001 \<le> (k + 1) * est" using dec m1 by linarith
    then have "(of_int 45001 :: rat) \<le> of_int ((k + 1) * est)"
      by (rule iffD2[OF of_int_le_iff])
    then show ?thesis using E by (intro divide_right_mono) simp_all
  qed
  finally have "T * chi < of_int k + 1" by (simp only: k1E [symmetric])
  then have up: "p < of_int k + 1" using hi by linarith
  have "\<lfloor>p\<rfloor> = k" using low up by (simp add: floor_unique)
  moreover have "0 \<le> p" using low k0 by (meson of_int_0_le_iff order_trans)
  ultimately show ?thesis by (simp add: truncToInt_def p_def k_def)
qed

text \<open>
  The small integers are binary64 numbers. For the fifteen estimates above 1500 that
  divide 45000 the quotient is an integer and the roundings decide; they are evaluated.
\<close>

lemma fl64_small_ints: "fl64 1 = 1" "fl64 2 = 2" "fl64 30 = 30" "fl64 1500 = 1500"
  by code_simp+

lemma shrink_exact_values:
  "truncToInt (fl64 (30 * fl64 (1500 / fl64 1800))) = 25"
  "truncToInt (fl64 (30 * fl64 (1500 / fl64 1875))) = 24"
  "truncToInt (fl64 (30 * fl64 (1500 / fl64 2250))) = 20"
  "truncToInt (fl64 (30 * fl64 (1500 / fl64 2500))) = 18"
  "truncToInt (fl64 (30 * fl64 (1500 / fl64 3000))) = 15"
  "truncToInt (fl64 (30 * fl64 (1500 / fl64 3750))) = 12"
  "truncToInt (fl64 (30 * fl64 (1500 / fl64 4500))) = 10"
  "truncToInt (fl64 (30 * fl64 (1500 / fl64 5000))) = 9"
  "truncToInt (fl64 (30 * fl64 (1500 / fl64 5625))) = 8"
  "truncToInt (fl64 (30 * fl64 (1500 / fl64 7500))) = 6"
  "truncToInt (fl64 (30 * fl64 (1500 / fl64 9000))) = 5"
  "truncToInt (fl64 (30 * fl64 (1500 / fl64 11250))) = 4"
  "truncToInt (fl64 (30 * fl64 (1500 / fl64 15000))) = 3"
  "truncToInt (fl64 (30 * fl64 (1500 / fl64 22500))) = 2"
  "truncToInt (fl64 (30 * fl64 (1500 / fl64 45000))) = 1"
  by code_simp+

lemma shrink2_exact: "truncToInt (fl64 (2 * fl64 (1500 / fl64 1501))) = 1"
  by code_simp

lemma divisors_45000:
  fixes est :: int
  assumes "1500 < est" "est dvd 45000"
  shows "est \<in> {1800, 1875, 2250, 2500, 3000, 3750, 4500, 5000, 5625, 7500, 9000, 11250,
                 15000, 22500, 45000}"
proof -
  from assms(2) obtain k where k: "45000 = est * k" by (auto simp: dvd_def)
  have kpos: "0 < k"
  proof (rule ccontr)
    assume "\<not> 0 < k"
    then have "est * k \<le> 0" using assms(1) by (simp add: mult_le_0_iff)
    then show False using k by simp
  qed
  have "est * k < est * 30" using k assms(1) by simp
  then have k30: "k < 30" using assms(1) by (simp add: mult_less_cancel_left)
  have "k = 1 \<or> k = 2 \<or> k = 3 \<or> k = 4 \<or> k = 5 \<or> k = 6 \<or> k = 7 \<or> k = 8 \<or> k = 9 \<or> k = 10
    \<or> k = 11 \<or> k = 12 \<or> k = 13 \<or> k = 14 \<or> k = 15 \<or> k = 16 \<or> k = 17 \<or> k = 18 \<or> k = 19 \<or> k = 20
    \<or> k = 21 \<or> k = 22 \<or> k = 23 \<or> k = 24 \<or> k = 25 \<or> k = 26 \<or> k = 27 \<or> k = 28 \<or> k = 29"
    using kpos k30 by presburger
  then show ?thesis using k by (elim disjE) (simp_all, presburger+)
qed

lemma quot_lt_30:
  fixes est :: int
  assumes "1500 < est"
  shows "45000 div est < 30"
proof (rule ccontr)
  assume "\<not> 45000 div est < 30"
  then have q: "30 \<le> 45000 div est" by simp
  have "est * 30 \<le> est * (45000 div est)"
    using q assms by (intro mult_left_mono) simp_all
  also have "\<dots> \<le> 45000"
    using mult_div_mod_eq [of est 45000] pos_mod_sign [of est 45000] assms by linarith
  finally show False using assms by simp
qed

lemma shrink_floor:
  fixes est :: int
  assumes "1500 < est"
  shows "truncToInt (fl64 (30 * fl64 (1500 / fl64 (of_int est)))) = 45000 div est"
proof (cases "est dvd 45000")
  case False
  with assms show ?thesis by (rule shrink_floor_nondiv)
next
  case True
  with assms have "est \<in> {1800, 1875, 2250, 2500, 3000, 3750, 4500, 5000, 5625, 7500, 9000,
                 11250, 15000, 22500, 45000}" by (rule divisors_45000)
  then show ?thesis
    by (elim insertE emptyE) (simp_all add: shrink_exact_values)
qed

lemma shrink_single:
  fixes est :: int
  assumes "1500 < est"
  shows "truncToInt (fl64 (fl64 (1500 / fl64 (of_int est)))) = 0"
proof -
  define E :: rat where "E = of_int est"
  define p where "p = fl64 (fl64 (1500 / fl64 (of_int est)))"
  have E: "1501 \<le> E" using assms by (simp add: E_def)
  have lo: "1 * 1500 / E * ((1 - 1 / 2 ^ 53) * (1 - 1 / 2 ^ 53) / (1 + 1 / 2 ^ 53)) \<le> p"
    and hi: "p \<le> 1 * 1500 / E * ((1 + 1 / 2 ^ 53) * (1 + 1 / 2 ^ 53) / (1 - 1 / 2 ^ 53))"
    using shrink_product_bounds[OF assms, of 1] by (simp_all add: p_def E_def)
  have "0 \<le> 1 * 1500 / E * ((1 - 1 / 2 ^ 53) * (1 - 1 / 2 ^ 53) / (1 + 1 / 2 ^ 53))"
    using E by simp
  then have p0: "0 \<le> p" using lo by linarith
  have "1 * 1500 / E \<le> 1500 / 1501" using E by (simp add: field_simps)
  then have "1 * 1500 / E * ((1 + 1 / 2 ^ 53) * (1 + 1 / 2 ^ 53) / (1 - 1 / 2 ^ 53))
      \<le> 1500 / 1501 * ((1 + 1 / 2 ^ 53) * (1 + 1 / 2 ^ 53) / (1 - 1 / 2 ^ 53))"
    by (intro mult_right_mono) simp_all
  also have "\<dots> < 1" by simp
  finally have p1: "p < 1" using hi by linarith
  have "\<lfloor>p\<rfloor> = 0" using p0 p1 by (simp add: floor_unique)
  then show ?thesis using p0 by (simp add: truncToInt_def p_def)
qed

subsection \<open>The chunk count\<close>

lemma linesPerChunkFor_pos: "0 < n \<Longrightarrow> 0 < linesPerChunkFor n"
  by (simp add: linesPerChunkFor_def)

lemma goDiv_nonneg: "0 \<le> a \<Longrightarrow> 0 < b \<Longrightarrow> goDiv a b = Inr (a div b)"
  by (cases "a = 0") (simp_all add: goDiv_def)

text \<open>
  C2. When the filter keeps no line, \<open>linesPerChunk\<close> is 0, the quotient
  \<open>(len + linesPerChunk - 1) / linesPerChunk\<close> panics with a division by zero, and the
  run ends there with no write of the output file. For \<open>n > 0\<close> filtered lines the
  divisor is positive and the quotient is defined; the run then ends without a failure.
\<close>

theorem zero_lines_division_panic:
  "(logFile ev = Inr logData \<and>
    filterLogLines (time_Parse ev) (clock ev - hour) (clock ev) logData = []
      \<longrightarrow> analyzerMain ev = (emptyRun, Some DivisionByZero) \<and> written (fst (analyzerMain ev)) = [])
   \<and> linesPerChunkFor 0 = 0
   \<and> goDiv (int 0 + int (linesPerChunkFor 0) - 1) (int (linesPerChunkFor 0)) = Inl DivisionByZero
   \<and> (0 < n \<longrightarrow>
        0 < linesPerChunkFor n \<and>
        goDiv (int n + int (linesPerChunkFor n) - 1) (int (linesPerChunkFor n)) =
          Inr (int ((n + linesPerChunkFor n - 1) div linesPerChunkFor n)))
   \<and> (logFile ev = Inr logData \<and>
       filterLogLines (time_Parse ev) (clock ev - hour) (clock ev) logData \<noteq> []
         \<longrightarrow> snd (analyzerMain ev) = None)"
proof (intro conjI impI)
  assume h: "logFile ev = Inr logData \<and>
    filterLogLines (time_Parse ev) (clock ev - hour) (clock ev) logData = []"
  then show "analyzerMain ev = (emptyRun, Some DivisionByZero)"
    by (simp add: analyzerMain_def linesPerChunkFor_def goDiv_def)
  then show "written (fst (analyzerMain ev)) = []"
    by (simp add: emptyRun_def)
next
  show "linesPerChunkFor 0 = 0" by (simp add: linesPerChunkFor_def)
next
  show "goDiv (int 0 + int (linesPerChunkFor 0) - 1) (int (linesPerChunkFor 0)) = Inl DivisionByZero"
    by (simp add: linesPerChunkFor_def goDiv_def)
next
  assume n: "0 < n"
  then show "0 < linesPerChunkFor n" by (rule linesPerChunkFor_pos)
  have "int n + int (linesPerChunkFor n) - 1 = int (n + linesPerChunkFor n - 1)"
    using n by simp
  then show "goDiv (int n + int (linesPerChunkFor n) - 1) (int (linesPerChunkFor n)) =
          Inr (int ((n + linesPerChunkFor n - 1) div linesPerChunkFor n))"
    using linesPerChunkFor_pos[OF n]
    by (simp add: goDiv_nonneg zdiv_int del: of_nat_add of_nat_diff)
next
  assume h: "logFile ev = Inr logData \<and>
       filterLogLines (time_Parse ev) (clock ev - hour) (clock ev) logData \<noteq> []"
  then have "0 < linesPerChunkFor (length (filterLogLines (time_Parse ev) (clock ev - hour) (clock ev) logData))"
    by (intro linesPerChunkFor_pos) simp
  then show "snd (analyzerMain ev) = None"
    using h by (simp add: analyzerMain_def goDiv_def Let_def)
qed

lemma demo_filtered:
  "filterLogLines demoParse (100 - hour) 100 demoLog = [''2024-01-01T00:00:30+00:00 boot'']"
  by (simp add: filterLogLines_def filterStep_def demoParse_def demoLog_def hour_def)

theorem zero_lines_division_panic_witness:
  "analyzerMain emptyLogEnv = (emptyRun, Some DivisionByZero)
   \<and> written (fst (analyzerMain emptyLogEnv)) = []
   \<and> (0::nat) < 45 \<and> linesPerChunkFor 45 = 30
   \<and> goDiv (int 45 + int (linesPerChunkFor 45) - 1) (int (linesPerChunkFor 45)) = Inr 2
   \<and> filterLogLines (time_Parse demoEnv) (clock demoEnv - hour) (clock demoEnv) demoLog \<noteq> []
   \<and> snd (analyzerMain demoEnv) = None"
proof -
  have e: "logFile emptyLogEnv = Inr [] \<and>
    filterLogLines (time_Parse emptyLogEnv) (clock emptyLogEnv - hour) (clock emptyLogEnv) [] = []"
    by (simp add: emptyLogEnv_def filterLogLines_def filterStep_def)
  have d: "logFile demoEnv = Inr demoLog \<and>
    filterLogLines (time_Parse demoEnv) (clock demoEnv - hour) (clock demoEnv) demoLog \<noteq> []"
    by (simp add: demoEnv_def demo_filtered)
  show ?thesis
    using zero_lines_division_panic [of emptyLogEnv "[]" 45] e
      zero_lines_division_panic [of demoEnv demoLog 45] d
    by (simp add: linesPerChunkFor_def emptyRun_def)
qed

subsection \<open>The chunker\<close>

lemma length_strings_Join:
  "length (strings_Join ls sep) = sum_list (map length ls) + (length ls - 1) * length sep"
  by (induction ls sep rule: strings_Join.induct) simp_all

lemma shrunkEnd_30:
  assumes "1500 < est" "i + 30 \<le> len"
  shows "shrunkEnd i (i + 30) est len =
           i + nat (if (30 * 1500) div est = 0 then 1 else (30 * 1500) div est)"
proof -
  define k where "k = 45000 div est"
  have k0: "0 \<le> k" using assms(1) by (simp add: k_def pos_imp_zdiv_nonneg_iff)
  have k30: "k < 30" unfolding k_def using assms(1) by (rule quot_lt_30)
  have t: "truncToInt (fl64 (30 * fl64 (1500 / fl64 (of_int est)))) = k"
    using shrink_floor[OF assms(1)] by (simp add: k_def)
  show ?thesis
    using k0 k30 assms(2)
    by (auto simp: shrunkEnd_def maxTokensPerChunk_def fl64_small_ints t Let_def k_def[symmetric])
qed

text \<open>
  C4. For every window of 30 lines whose estimate \<open>est\<close> (the length of the joined text
  divided by 4) exceeds 1500, the shrunk window has \<open>floor(30 * 1500 / est)\<close> lines, and
  one line when that floor is 0; the computation in binary64, with its roundings, gives
  exactly this number.
\<close>

theorem shrunk_window_size:
  assumes "i + 30 \<le> length filteredLogLines"
    and "estimateTokens (strings_Join (slice filteredLogLines i (i + 30)) [NL]) = est"
    and "maxTokensPerChunk < est"
  shows "chunkWindow filteredLogLines 30 i - i =
           nat (if (30 * 1500) div est = 0 then 1 else (30 * 1500) div est)
       \<and> length (slice filteredLogLines i (chunkWindow filteredLogLines 30 i)) =
           nat (if (30 * 1500) div est = 0 then 1 else (30 * 1500) div est)"
proof -
  have est: "1500 < est" using assms(3) by (simp add: maxTokensPerChunk_def)
  have w: "chunkWindow filteredLogLines 30 i =
      i + nat (if (30 * 1500) div est = 0 then 1 else (30 * 1500) div est)"
    using assms shrunkEnd_30[OF est assms(1)]
    by (simp add: chunkWindow_def Let_def)
  have "45000 div est < 30" using est by (rule quot_lt_30)
  then have "nat (if (30 * 1500) div est = 0 then 1 else (30 * 1500) div est) \<le> 30"
    by (auto simp: nat_le_iff)
  then show ?thesis using assms(1) by (simp add: w slice_def)
qed

theorem shrunk_window_size_witness:
  "0 + 30 \<le> length thirtyLines
   \<and> estimateTokens (strings_Join (slice thirtyLines 0 (0 + 30)) [NL]) = 1882
   \<and> maxTokensPerChunk < 1882
   \<and> chunkWindow thirtyLines 30 0 - 0 = 23
   \<and> length (slice thirtyLines 0 (chunkWindow thirtyLines 30 0)) = 23"
proof -
  have a: "0 + 30 \<le> length thirtyLines" by (simp add: thirtyLines_def)
  have b: "estimateTokens (strings_Join (slice thirtyLines 0 (0 + 30)) [NL]) = 1882"
    by (simp add: thirtyLines_def slice_def estimateTokens_def length_strings_Join
        paddedLine_def sum_list_replicate)
  have c: "maxTokensPerChunk < 1882" by (simp add: maxTokensPerChunk_def)
  show ?thesis
    using a b c shrunk_window_size [OF a b c] by (simp add: slice_def thirtyLines_def)
qed

lemma chunkWindow_single:
  assumes "6004 \<le> length line"
  shows "chunkWindow [line] (Suc 0) 0 = 1"
proof -
  have "1500 < int (length line) div 4" using assms by linarith
  then show ?thesis
    using shrink_single[of "int (length line) div 4"]
    by (simp add: chunkWindow_def slice_def estimateTokens_def maxTokensPerChunk_def
        shrunkEnd_def fl64_small_ints Let_def)
qed

lemma chunks_chunkStep:
  "chunks (chunkStep exchange ls lpc cnt i s) =
     chunks s @ [slice ls i (chunkWindow ls lpc i)]"
  by (simp add: chunkStep_def Let_def split: prod.splits)

lemma chunkLoop_done:
  "length ls \<le> i \<Longrightarrow> chunkLoop exchange ls lpc cnt i s = s"
  by (subst chunkLoop.simps) simp

lemma chunkLoop_step:
  "i < length ls \<Longrightarrow> 0 < lpc \<Longrightarrow>
   chunkLoop exchange ls lpc cnt i s =
     chunkLoop exchange ls lpc cnt (i + lpc) (chunkStep exchange ls lpc cnt i s)"
  by (subst chunkLoop.simps) simp

lemma analyzerMain_chunks:
  assumes "logFile ev = Inr logData"
    and "filterLogLines (time_Parse ev) (clock ev - hour) (clock ev) logData = ls"
    and "ls \<noteq> []"
    and "lpc = linesPerChunkFor (length ls)"
    and "cnt = (length ls + lpc - 1) div lpc"
  shows "chunks (fst (analyzerMain ev)) = chunks (chunkLoop (exchanges ev) ls lpc cnt 0 emptyRun)"
proof -
  have pos: "0 < lpc" using assms(3,4) by (simp add: linesPerChunkFor_def)
  have "int (length ls) + int lpc - 1 = int (length ls + lpc - 1)" using pos by linarith
  then have "goDiv (int (length ls) + int lpc - 1) (int lpc) = Inr (int cnt)"
    using pos assms(5) by (simp add: goDiv_nonneg zdiv_int del: of_nat_add of_nat_diff)
  then show ?thesis
    using assms(1,2,4) by (simp add: analyzerMain_def Let_def)
qed

lemma bytes_Split_no_newline: "NL \<notin> set s \<Longrightarrow> bytes_Split s = [s]"
  by (induction s) auto

lemma bytes_Split_first:
  "NL \<notin> set s \<Longrightarrow> bytes_Split (s @ NL # rest) = s # bytes_Split rest"
  by (induction s) auto

lemma paddedLine_filtered:
  "c \<noteq> NL \<Longrightarrow> filterLogLines demoParse (100 - hour) 100 (paddedLine c n) = [paddedLine c n]"
  by (simp add: filterLogLines_def bytes_Split_no_newline paddedLine_def filterStep_def
      demoParse_def hour_def)

text \<open>
  C8, as amended. A filtered sequence of one line of at least 6004 bytes is sent as one
  chunk holding that line, and the estimate of the chunk exceeds
  \<^const>\<open>maxTokensPerChunk\<close>: the shrink step runs once and leaves at least one line.
\<close>

theorem oversized_single_line:
  assumes "logFile ev = Inr logData"
    and "filterLogLines (time_Parse ev) (clock ev - hour) (clock ev) logData = [line]"
    and "6004 \<le> length line"
  shows "chunks (fst (analyzerMain ev)) = [[line]]
       \<and> maxTokensPerChunk < estimateTokens (strings_Join [line] [NL])"
proof -
  have "1500 < int (length line) div 4" using assms(3) by linarith
  then have e: "maxTokensPerChunk < estimateTokens (strings_Join [line] [NL])"
    by (simp add: estimateTokens_def maxTokensPerChunk_def)
  have l: "chunkLoop (exchanges ev) [line] (Suc 0) (Suc 0) 0 emptyRun =
      chunkStep (exchanges ev) [line] (Suc 0) (Suc 0) 0 emptyRun"
    by (simp add: chunkLoop.simps)
  have "chunks (chunkStep (exchanges ev) [line] (Suc 0) (Suc 0) 0 emptyRun) = [[line]]"
    by (simp add: chunks_chunkStep chunkWindow_single[OF assms(3)] slice_def emptyRun_def)
  then have "chunks (fst (analyzerMain ev)) = [[line]]"
    using assms(1,2)
    by (simp add: analyzerMain_def linesPerChunkFor_def goDiv_def l Let_def)
  with e show ?thesis by simp
qed

theorem oversized_single_line_witness:
  "logFile (lineEnv (paddedLine CHR ''x'' 5979)) = Inr (paddedLine CHR ''x'' 5979)
   \<and> filterLogLines (time_Parse (lineEnv (paddedLine CHR ''x'' 5979)))
        (clock (lineEnv (paddedLine CHR ''x'' 5979)) - hour)
        (clock (lineEnv (paddedLine CHR ''x'' 5979))) (paddedLine CHR ''x'' 5979)
       = [paddedLine CHR ''x'' 5979]
   \<and> 6004 \<le> length (paddedLine CHR ''x'' 5979)
   \<and> chunks (fst (analyzerMain (lineEnv (paddedLine CHR ''x'' 5979)))) = [[paddedLine CHR ''x'' 5979]]
   \<and> maxTokensPerChunk < estimateTokens (strings_Join [paddedLine CHR ''x'' 5979] [NL])"
proof -
  have a: "logFile (lineEnv (paddedLine CHR ''x'' 5979)) = Inr (paddedLine CHR ''x'' 5979)"
    by (simp add: lineEnv_def)
  have b: "filterLogLines (time_Parse (lineEnv (paddedLine CHR ''x'' 5979)))
        (clock (lineEnv (paddedLine CHR ''x'' 5979)) - hour)
        (clock (lineEnv (paddedLine CHR ''x'' 5979))) (paddedLine CHR ''x'' 5979)
       = [paddedLine CHR ''x'' 5979]"
    by (simp add: lineEnv_def paddedLine_filtered)
  have c: "6004 \<le> length (paddedLine CHR ''x'' 5979)"
    by (simp add: paddedLine_def)
  show ?thesis
    using a b c oversized_single_line [OF a b c] by simp
qed

text \<open>
  C8 as first stated, with "longer than 6000 characters", fails: a line of 6001 bytes is
  sent as a chunk whose estimate is 1500, which does not exceed the ceiling.
\<close>

theorem line_of_6001_not_over_ceiling:
  "6000 < length (paddedLine CHR ''x'' 5976)
   \<and> filterLogLines demoParse (100 - hour) 100 (paddedLine CHR ''x'' 5976)
       = [paddedLine CHR ''x'' 5976]
   \<and> chunks (fst (analyzerMain (lineEnv (paddedLine CHR ''x'' 5976))))
       = [[paddedLine CHR ''x'' 5976]]
   \<and> estimateTokens (strings_Join [paddedLine CHR ''x'' 5976] [NL]) = 1500
   \<and> \<not> maxTokensPerChunk < estimateTokens (strings_Join [paddedLine CHR ''x'' 5976] [NL])"
proof -
  have len: "length (paddedLine CHR ''x'' 5976) = 6001" by (simp add: paddedLine_def)
  have w: "chunkWindow [paddedLine CHR ''x'' 5976] (Suc 0) 0 = 1"
    by (simp add: chunkWindow_def slice_def estimateTokens_def maxTokensPerChunk_def len)
  have l: "chunkLoop (\<lambda>k. SendFailed ''connection refused'') [paddedLine CHR ''x'' 5976] (Suc 0) (Suc 0) 0 emptyRun =
      chunkStep (\<lambda>k. SendFailed ''connection refused'') [paddedLine CHR ''x'' 5976] (Suc 0) (Suc 0) 0 emptyRun"
    by (simp add: chunkLoop.simps)
  have "chunks (chunkStep (\<lambda>k. SendFailed ''connection refused'') [paddedLine CHR ''x'' 5976]
                 (Suc 0) (Suc 0) 0 emptyRun) = [[paddedLine CHR ''x'' 5976]]"
    by (simp add: chunks_chunkStep w slice_def emptyRun_def)
  then have "chunks (fst (analyzerMain (lineEnv (paddedLine CHR ''x'' 5976))))
       = [[paddedLine CHR ''x'' 5976]]"
    by (simp add: analyzerMain_def lineEnv_def paddedLine_filtered linesPerChunkFor_def goDiv_def
        l Let_def)
  then show ?thesis
    by (simp add: len paddedLine_filtered estimateTokens_def maxTokensPerChunk_def)
qed

lemma twoLongLines_filtered:
  "filterLogLines demoParse (100 - hour) 100 twoLongLines =
     [paddedLine CHR ''a'' 2977, paddedLine CHR ''b'' 2977]"
proof -
  have "bytes_Split twoLongLines = [paddedLine CHR ''a'' 2977, paddedLine CHR ''b'' 2977]"
    by (simp add: twoLongLines_def paddedLine_def bytes_Split_first bytes_Split_no_newline)
  then show ?thesis
    by (simp add: filterLogLines_def filterStep_def paddedLine_def demoParse_def hour_def)
qed

text \<open>
  What the chunker does keep: a chunk is never empty, and when no window exceeds the
  ceiling the chunks, in order, hold every line from the start index on.
\<close>

lemma chunkWindow_bounds:
  assumes "i < length ls" "0 < lpc"
  shows "i < chunkWindow ls lpc i \<and> chunkWindow ls lpc i \<le> length ls"
  using assms by (auto simp: chunkWindow_def shrunkEnd_def Let_def)

lemma chunks_nonempty:
  "\<forall>c \<in> set (chunks s). c \<noteq> [] \<Longrightarrow>
   \<forall>c \<in> set (chunks (chunkLoop exchange ls lpc cnt i s)). c \<noteq> []"
proof (induction exchange ls lpc cnt i s rule: chunkLoop.induct)
  case (1 exchange ls lpc cnt i s)
  show ?case
  proof (cases "i < length ls \<and> 0 < lpc")
    case True
    then have b: "i < chunkWindow ls lpc i" "chunkWindow ls lpc i \<le> length ls"
      using chunkWindow_bounds[of i ls lpc] by simp_all
    then have "slice ls i (chunkWindow ls lpc i) \<noteq> []"
      using True by (simp add: slice_def)
    then have "\<forall>c \<in> set (chunks (chunkStep exchange ls lpc cnt i s)). c \<noteq> []"
      using "1.prems" by (simp add: chunks_chunkStep)
    then have "\<forall>c \<in> set (chunks (chunkLoop exchange ls lpc cnt (i + lpc)
                 (chunkStep exchange ls lpc cnt i s))). c \<noteq> []"
      using True by (intro "1.IH") simp_all
    then show ?thesis using True by (simp add: chunkLoop_step)
  next
    case False
    then show ?thesis using "1.prems" by (subst chunkLoop.simps) auto
  qed
qed

lemma chunks_cover_unshrunk:
  assumes "\<forall>j. estimateTokens (strings_Join (slice ls j (min (j + lpc) (length ls))) [NL])
                \<le> maxTokensPerChunk"
    and "0 < lpc"
  shows "concat (chunks (chunkLoop exchange ls lpc cnt i s)) = concat (chunks s) @ drop i ls"
  using assms
proof (induction exchange ls lpc cnt i s rule: chunkLoop.induct)
  case (1 exchange ls lpc cnt i s)
  show ?case
  proof (cases "i < length ls")
    case True
    have "\<not> maxTokensPerChunk <
        estimateTokens (strings_Join (slice ls i (min (i + lpc) (length ls))) [NL])"
      using "1.prems"(1) by (simp add: not_less)
    then have w: "chunkWindow ls lpc i = min (i + lpc) (length ls)"
      by (auto simp: chunkWindow_def Let_def min_def)
    have sl: "slice ls i (min (i + lpc) (length ls)) = take lpc (drop i ls)"
      using True by (auto simp: slice_def min_def)
    have "concat (chunks (chunkLoop exchange ls lpc cnt (i + lpc)
                 (chunkStep exchange ls lpc cnt i s))) =
          concat (chunks (chunkStep exchange ls lpc cnt i s)) @ drop (i + lpc) ls"
      using True "1.prems" by (intro "1.IH") simp_all
    also have "\<dots> = concat (chunks s) @ (take lpc (drop i ls) @ drop lpc (drop i ls))"
      by (simp add: chunks_chunkStep w sl add.commute)
    also have "\<dots> = concat (chunks s) @ drop i ls"
      by (simp only: append_take_drop_id)
    finally show ?thesis using True "1.prems"(2) by (simp add: chunkLoop_step)
  next
    case False
    then show ?thesis by (simp add: chunkLoop_done)
  qed
qed

text \<open>
  C1. The chunker does not keep every line. On a log of two lines of 3002 bytes, both
  kept by the filter, the window of two lines has the estimate 1501 and is shrunk to one
  line; the loop then advances by \<open>linesPerChunk = 2\<close> and ends, so the only chunk sent
  holds the first line and the second line is in no chunk.
\<close>

theorem shrunk_window_drops_line:
  "filterLogLines demoParse (100 - hour) 100 twoLongLines =
     [paddedLine CHR ''a'' 2977, paddedLine CHR ''b'' 2977]
   \<and> chunks (fst (analyzerMain (lineEnv twoLongLines))) = [[paddedLine CHR ''a'' 2977]]
   \<and> concat (chunks (fst (analyzerMain (lineEnv twoLongLines)))) \<noteq>
       filterLogLines demoParse (100 - hour) 100 twoLongLines"
proof -
  let ?a = "paddedLine CHR ''a'' 2977" and ?b = "paddedLine CHR ''b'' 2977"
  let ?ex = "\<lambda>k::nat. SendFailed ''connection refused''"
  have len: "length ?a = 3002" "length ?b = 3002" by (simp_all add: paddedLine_def)
  have est: "estimateTokens (?a @ NL # ?b) = 1501"
    by (simp add: estimateTokens_def len)
  have w: "chunkWindow [?a, ?b] 2 0 = 1"
    by (simp add: chunkWindow_def slice_def est maxTokensPerChunk_def shrunkEnd_def
        fl64_small_ints shrink2_exact Let_def)
  have l: "chunkLoop ?ex [?a, ?b] 2 (Suc 0) 0 emptyRun = chunkStep ?ex [?a, ?b] 2 (Suc 0) 0 emptyRun"
    by (simp add: chunkLoop_step chunkLoop_done)
  have c: "chunks (chunkStep ?ex [?a, ?b] 2 (Suc 0) 0 emptyRun) = [[?a]]"
    by (simp add: chunks_chunkStep w slice_def emptyRun_def)
  have "chunks (fst (analyzerMain (lineEnv twoLongLines))) =
      chunks (chunkLoop (exchanges (lineEnv twoLongLines)) [?a, ?b] 2 (Suc 0) 0 emptyRun)"
    by (rule analyzerMain_chunks [where logData = twoLongLines])
       (simp_all add: lineEnv_def twoLongLines_filtered linesPerChunkFor_def)
  also have "\<dots> = [[?a]]" using c by (simp add: lineEnv_def l)
  finally show ?thesis by (simp add: twoLongLines_filtered)
qed

subsection \<open>The final report\<close>

lemma appendAnalyses_exceeds:
  "k < length rest \<Longrightarrow>
   totalChars + sum_list (map length (take k rest)) \<le> maxChars \<Longrightarrow>
   maxChars < totalChars + sum_list (map length (take (Suc k) rest)) \<Longrightarrow>
   appendAnalyses maxChars n i rest totalChars buffer =
     (buffer @ concat (map (\<lambda>a. a @ analysisSep) (take k rest)) @ analysesNote (n - (i + k)),
      totalChars + sum_list (map length (take k rest)))"
proof (induction rest arbitrary: k i totalChars buffer)
  case Nil
  then show ?case by simp
next
  case (Cons a rest)
  show ?case
  proof (cases k)
    case 0
    with Cons.prems show ?thesis by simp
  next
    case (Suc k')
    have le: "totalChars + length a \<le> maxChars"
      using Cons.prems(2) Suc by simp
    have "appendAnalyses maxChars n (i + 1) rest (totalChars + length a) (buffer @ a @ analysisSep) =
      ((buffer @ a @ analysisSep) @ concat (map (\<lambda>a. a @ analysisSep) (take k' rest)) @
         analysesNote (n - ((i + 1) + k')),
       (totalChars + length a) + sum_list (map length (take k' rest)))"
      using Cons.prems Suc by (intro Cons.IH) (simp_all add: add.assoc)
    then show ?thesis using le Suc by (simp add: add.assoc)
  qed
qed

lemma appendErrors_buffer:
  "fst (appendErrors maxChars n i es totalChars buffer) =
     buffer @ fst (appendErrors maxChars n i es totalChars [])"
proof (induction es arbitrary: i totalChars buffer)
  case Nil
  then show ?case by simp
next
  case (Cons e es)
  show ?case
  proof (cases "totalChars + length e > maxChars")
    case True
    then show ?thesis by simp
  next
    case False
    have "fst (appendErrors maxChars n (i + 1) es (totalChars + length e) (buffer @ e @ [NL, NL])) =
          (buffer @ e @ [NL, NL]) @ fst (appendErrors maxChars n (i + 1) es (totalChars + length e) [])"
      by (rule Cons.IH)
    moreover have "fst (appendErrors maxChars n (i + 1) es (totalChars + length e) (e @ [NL, NL])) =
          (e @ [NL, NL]) @ fst (appendErrors maxChars n (i + 1) es (totalChars + length e) [])"
      by (rule Cons.IH)
    ultimately show ?thesis using False by simp
  qed
qed

text \<open>\<^const>\<open>showNat\<close> writes the decimal numeral of its argument.\<close>

lemma digit_char:
  assumes "d < 10"
  shows "(of_char (''0123456789'' ! d) :: nat) = 48 + d \<and> isDigit (''0123456789'' ! d)"
proof -
  from assms have "d = 0 \<or> d = 1 \<or> d = 2 \<or> d = 3 \<or> d = 4 \<or> d = 5 \<or> d = 6 \<or> d = 7 \<or> d = 8 \<or> d = 9"
    by arith
  then show ?thesis by (elim disjE) (simp_all add: isDigit_def)
qed

lemma decimalValue_snoc:
  "decimalValue (s @ [c]) = 10 * decimalValue s + (of_char c - 48)"
  by (simp add: decimalValue_def)

lemma showNat_decimal:
  "decimalValue (showNat n) = n \<and> list_all isDigit (showNat n) \<and> showNat n \<noteq> []"
proof (induction n rule: showNat.induct)
  case (1 n)
  show ?case
  proof (cases "n < 10")
    case True
    then show ?thesis
      using digit_char [of n] by (subst (1 2 3) showNat.simps) (simp add: decimalValue_def)
  next
    case False
    have d: "n mod 10 < 10" by simp
    have ih: "decimalValue (showNat (n div 10)) = n div 10"
      "list_all isDigit (showNat (n div 10))"
      using "1.IH" False by simp_all
    have s: "showNat n = showNat (n div 10) @ [''0123456789'' ! (n mod 10)]"
      using False by (subst showNat.simps) simp
    show ?thesis
      using ih digit_char [OF d] by (simp add: s decimalValue_snoc)
  qed
qed

text \<open>
  C6. For every ceiling and every list of analyses whose cumulative size first exceeds
  the ceiling at index \<open>i\<close>, the final report is its header, the analyses of index
  \<open>0\<close> to \<open>i - 1\<close> verbatim, each followed by the separator, then the note
  "*Note: (n) additional analyses were truncated due to size limits.*" where \<open>(n)\<close> is
  the decimal numeral of \<open>len(analyses) - i\<close>, and after it only the section of the
  errors; the analyses from index \<open>i\<close> on are not rendered. \<open>compileFinalSummary\<close> is
  this text at the ceiling 20000.
\<close>

theorem final_report_truncation:
  assumes "firstExceeds maxChars analyses i"
  shows "finalSummaryText maxChars stamp analyses errors =
     ''# LOG ANALYSIS SUMMARY'' @ [NL] @
     ''Generated on '' @ stamp @ [NL, NL] @
     ''Processed '' @ showNat (length analyses) @ '' chunks of logs from the last hour.'' @ [NL] @
     (if length errors > 0
      then ''Encountered '' @ showNat (length errors) @ '' errors during processing.'' @ [NL]
      else []) @
     [NL] @ ''---'' @ [NL, NL] @
     ''## DETAILED FINDINGS'' @ [NL, NL] @
     concat (map (\<lambda>a. a @ [NL, NL] @ ''---'' @ [NL, NL]) (take i analyses)) @
     [NL, NL] @ ''*Note: '' @ showNat (length analyses - i) @
     '' additional analyses were truncated due to size limits.*'' @ [NL] @
     (if length errors > 0
      then [NL, NL] @ ''## ERRORS'' @ [NL, NL] @
           fst (appendErrors maxChars (length errors) 0 errors
                  (sum_list (map length (take i analyses))) [])
      else [])
   \<and> decimalValue (showNat (length analyses - i)) = length analyses - i
   \<and> list_all isDigit (showNat (length analyses - i))
   \<and> compileFinalSummary stamp analyses errors =
       finalSummaryText maxCharsPerSummary stamp analyses errors"
proof -
  have i: "i < length analyses" and hi: "maxChars < sum_list (map length (take (Suc i) analyses))"
    using assms by (simp_all add: firstExceeds_def cumulativeSize_def)
  have lo: "sum_list (map length (take i analyses)) \<le> maxChars"
  proof (cases i)
    case 0
    then show ?thesis by simp
  next
    case (Suc j)
    then have "cumulativeSize analyses j \<le> maxChars"
      using assms by (simp add: firstExceeds_def)
    then show ?thesis using Suc by (simp add: cumulativeSize_def)
  qed
  have "appendAnalyses maxChars (length analyses) 0 analyses 0 (summaryHeader stamp analyses errors) =
      (summaryHeader stamp analyses errors @
         concat (map (\<lambda>a. a @ analysisSep) (take i analyses)) @
         analysesNote (length analyses - (0 + i)),
       0 + sum_list (map length (take i analyses)))"
    using i lo hi by (intro appendAnalyses_exceeds) simp_all
  then have "finalSummaryText maxChars stamp analyses errors =
     summaryHeader stamp analyses errors @
     concat (map (\<lambda>a. a @ analysisSep) (take i analyses)) @
     analysesNote (length analyses - i) @
     (if length errors > 0
      then [NL, NL] @ ''## ERRORS'' @ [NL, NL] @
           fst (appendErrors maxChars (length errors) 0 errors
                  (sum_list (map length (take i analyses))) [])
      else [])"
    by (simp add: finalSummaryText_def appendErrors_buffer [where buffer = "_ @ _"])
  then show ?thesis
    using showNat_decimal [of "length analyses - i"]
    by (simp add: summaryHeader_def analysisSep_def analysesNote_def compileFinalSummary_def)
qed

theorem final_report_truncation_witness:
  "firstExceeds 10 [''aaaa'', ''bbbb'', ''cccc'', ''dddd''] 2
   \<and> finalSummaryText 10 ''now'' [''aaaa'', ''bbbb'', ''cccc'', ''dddd''] [] =
     ''# LOG ANALYSIS SUMMARY'' @ [NL] @ ''Generated on now'' @ [NL, NL] @
     ''Processed 4 chunks of logs from the last hour.'' @ [NL] @
     [NL] @ ''---'' @ [NL, NL] @ ''## DETAILED FINDINGS'' @ [NL, NL] @
     ''aaaa'' @ [NL, NL] @ ''---'' @ [NL, NL] @ ''bbbb'' @ [NL, NL] @ ''---'' @ [NL, NL] @
     [NL, NL] @ ''*Note: 2 additional analyses were truncated due to size limits.*'' @ [NL]
   \<and> decimalValue ''2'' = 2"
proof -
  have h: "firstExceeds 10 [''aaaa'', ''bbbb'', ''cccc'', ''dddd''] 2"
    by (auto simp: firstExceeds_def cumulativeSize_def numeral_2_eq_2 less_Suc_eq)
  have s: "showNat (Suc (Suc 0)) = ''2''" "showNat (Suc (Suc (Suc (Suc 0)))) = ''4''"
    by (simp_all add: showNat.simps)
  have d: "decimalValue ''2'' = 2" by (simp add: decimalValue_def)
  show ?thesis
    using h d final_report_truncation [OF h, of "''now''" "[]"]
    by (simp add: s)
qed

subsection \<open>The enhancer\<close>

lemma strings_Contains_iff:
  "strings_Contains s substr \<longleftrightarrow> (\<exists>u v. s = u @ substr @ v)"
proof (induction s)
  case Nil
  then show ?case by auto
next
  case (Cons c cs)
  show ?case
  proof
    assume "strings_Contains (c # cs) substr"
    then consider "prefix substr (c # cs)" | "strings_Contains cs substr" by auto
    then show "\<exists>u v. c # cs = u @ substr @ v"
    proof cases
      case 1
      then obtain v where "c # cs = substr @ v" by (auto simp: prefix_def)
      then have "c # cs = [] @ substr @ v" by simp
      then show ?thesis by blast
    next
      case 2
      then obtain u v where "cs = u @ substr @ v" using Cons.IH by blast
      then have "c # cs = (c # u) @ substr @ v" by simp
      then show ?thesis by blast
    qed
  next
    assume "\<exists>u v. c # cs = u @ substr @ v"
    then obtain u v where uv: "c # cs = u @ substr @ v" by blast
    show "strings_Contains (c # cs) substr"
    proof (cases u)
      case Nil
      then have "prefix substr (c # cs)" using uv by (simp add: prefix_def)
      then show ?thesis by simp
    next
      case (Cons a u')
      then have "cs = u' @ substr @ v" using uv by simp
      then have "strings_Contains cs substr" using Cons.IH by blast
      then show ?thesis by simp
    qed
  qed
qed

lemma map_infix_iff:
  "(\<exists>u v. map f s = u @ p @ v) \<longleftrightarrow> (\<exists>u w v. s = u @ w @ v \<and> map f w = p)"
proof
  assume "\<exists>u v. map f s = u @ p @ v"
  then obtain u v where "map f s = u @ (p @ v)" by auto
  then obtain us r where s: "s = us @ r" and r: "map f r = p @ v"
    by (metis map_eq_append_conv)
  from r obtain w vs where "r = w @ vs" and "map f w = p"
    by (metis map_eq_append_conv)
  with s show "\<exists>u w v. s = u @ w @ v \<and> map f w = p" by blast
next
  assume "\<exists>u w v. s = u @ w @ v \<and> map f w = p"
  then obtain u w v where "s = u @ w @ v" and "map f w = p" by blast
  then have "map f s = map f u @ p @ map f v" by simp
  then show "\<exists>u v. map f s = u @ p @ v" by blast
qed

lemma sameLetter_upper:
  "sameLetter a CHR ''R'' \<longleftrightarrow> asciiUpper a = CHR ''R''"
  "sameLetter a CHR ''E'' \<longleftrightarrow> asciiUpper a = CHR ''E''"
  "sameLetter a CHR ''C'' \<longleftrightarrow> asciiUpper a = CHR ''C''"
  "sameLetter a CHR ''O'' \<longleftrightarrow> asciiUpper a = CHR ''O''"
  "sameLetter a CHR ''M'' \<longleftrightarrow> asciiUpper a = CHR ''M''"
  "sameLetter a CHR ''N'' \<longleftrightarrow> asciiUpper a = CHR ''N''"
  "sameLetter a CHR ''D'' \<longleftrightarrow> asciiUpper a = CHR ''D''"
  "sameLetter a CHR ''A'' \<longleftrightarrow> asciiUpper a = CHR ''A''"
  "sameLetter a CHR ''T'' \<longleftrightarrow> asciiUpper a = CHR ''T''"
  "sameLetter a CHR ''I'' \<longleftrightarrow> asciiUpper a = CHR ''I''"
  by (simp_all add: sameLetter_def asciiUpper_def)

lemma list_all2_sameLetter:
  "list_all2 sameLetter w ''RECOMMENDATION'' \<longleftrightarrow> map asciiUpper w = ''RECOMMENDATION''"
  by (simp add: list_all2_Cons2 map_eq_Cons_conv sameLetter_upper)

lemma containsIgnoringCase_iff:
  "containsIgnoringCase s ''RECOMMENDATION'' \<longleftrightarrow>
     strings_Contains (map asciiUpper s) ''RECOMMENDATION''"
  unfolding containsIgnoringCase_def strings_Contains_iff list_all2_sameLetter
  by (rule map_infix_iff [symmetric])

lemma strings_ToUpper_ascii: "isASCII s \<Longrightarrow> strings_ToUpper table s = map asciiUpper s"
  by (simp add: strings_ToUpper_def)

text \<open>
  C7, as amended. For every reply, the text returned by
  \<open>enhanceSummaryWithRecommendations\<close> is the header, the reply and, exactly when the
  upper-cased reply (\<open>strings.ToUpper\<close>) does not contain "RECOMMENDATION", the
  synthesized "RECOMMENDATIONS" section. For a reply of ASCII bytes that is: the section
  is there iff the reply does not contain "RECOMMENDATION" case-insensitively.
\<close>

theorem fallback_iff_no_recommendation:
  assumes "serviceError result = None"
    and "extractContent ''No summary generated.'' result = reply"
  shows "enhanceSummaryWithRecommendations table stamp (Decoded result) summaryText =
           Inr (''# ENHANCED LOG SUMMARY WITH RECOMMENDATIONS'' @ [NL] @
                ''Generated on '' @ stamp @ [NL, NL] @ reply @
                (if strings_Contains (strings_ToUpper table reply) ''RECOMMENDATION'' then []
                 else [NL, NL] @ ''## RECOMMENDATIONS'' @ [NL, NL] @
                      ''The AI did not provide specific recommendations. Please review the summary to determine appropriate actions.'' @ [NL]))
       \<and> (isASCII reply \<longrightarrow>
            (enhanceSummaryWithRecommendations table stamp (Decoded result) summaryText =
               Inr (''# ENHANCED LOG SUMMARY WITH RECOMMENDATIONS'' @ [NL] @
                    ''Generated on '' @ stamp @ [NL, NL] @ reply @
                    [NL, NL] @ ''## RECOMMENDATIONS'' @ [NL, NL] @
                    ''The AI did not provide specific recommendations. Please review the summary to determine appropriate actions.'' @ [NL])
             \<longleftrightarrow> \<not> containsIgnoringCase reply ''RECOMMENDATION''))
       \<and> (isASCII reply \<longrightarrow>
            (enhanceSummaryWithRecommendations table stamp (Decoded result) summaryText =
               Inr (''# ENHANCED LOG SUMMARY WITH RECOMMENDATIONS'' @ [NL] @
                    ''Generated on '' @ stamp @ [NL, NL] @ reply)
             \<longleftrightarrow> containsIgnoringCase reply ''RECOMMENDATION''))"
proof -
  have out: "enhanceSummaryWithRecommendations table stamp (Decoded result) summaryText =
      Inr (enhancedHeader stamp @ reply @
           (if strings_Contains (strings_ToUpper table reply) ''RECOMMENDATION'' then []
            else fallbackSection))"
    using assms by (simp add: enhanceSummaryWithRecommendations_def formatEnhanced_def)
  have c: "isASCII reply \<Longrightarrow>
      strings_Contains (strings_ToUpper table reply) ''RECOMMENDATION'' \<longleftrightarrow>
      containsIgnoringCase reply ''RECOMMENDATION''"
    by (simp only: strings_ToUpper_ascii containsIgnoringCase_iff)
  show ?thesis
    using c by (auto simp: out enhancedHeader_def fallbackSection_def)
qed

lemma contentResponse_reply:
  "serviceError (contentResponse X) = None"
  "extractContent placeholder (contentResponse X) = X"
  by (simp_all add: contentResponse_def serviceError_def extractContent_def)

lemma dotlessReply_upper: "strings_ToUpper sampleTable dotlessReply = ''RECOMMENDATION: NONE''"
  by code_simp

theorem fallback_iff_no_recommendation_witness:
  "serviceError (contentResponse ''All quiet.'') = None
   \<and> extractContent ''No summary generated.'' (contentResponse ''All quiet.'') = ''All quiet.''
   \<and> isASCII ''All quiet.''
   \<and> \<not> containsIgnoringCase ''All quiet.'' ''RECOMMENDATION''
   \<and> enhanceSummaryWithRecommendations sampleTable ''now''
         (Decoded (contentResponse ''All quiet.'')) ''report'' =
       Inr (''# ENHANCED LOG SUMMARY WITH RECOMMENDATIONS'' @ [NL] @
            ''Generated on now'' @ [NL, NL] @ ''All quiet.'' @
            [NL, NL] @ ''## RECOMMENDATIONS'' @ [NL, NL] @
            ''The AI did not provide specific recommendations. Please review the summary to determine appropriate actions.'' @ [NL])
   \<and> serviceError (contentResponse ''See the Recommendations below.'') = None
   \<and> extractContent ''No summary generated.'' (contentResponse ''See the Recommendations below.'')
       = ''See the Recommendations below.''
   \<and> isASCII ''See the Recommendations below.''
   \<and> containsIgnoringCase ''See the Recommendations below.'' ''RECOMMENDATION''
   \<and> enhanceSummaryWithRecommendations sampleTable ''now''
         (Decoded (contentResponse ''See the Recommendations below.'')) ''report'' =
       Inr (''# ENHANCED LOG SUMMARY WITH RECOMMENDATIONS'' @ [NL] @
            ''Generated on now'' @ [NL, NL] @ ''See the Recommendations below.'')"
proof -
  have a1: "isASCII ''All quiet.''" by (simp add: isASCII_def)
  have a2: "isASCII ''See the Recommendations below.''" by (simp add: isASCII_def)
  have u1: "strings_ToUpper sampleTable ''All quiet.'' = ''ALL QUIET.''"
    by (simp add: strings_ToUpper_ascii [OF a1] asciiUpper_def)
  have u2: "strings_ToUpper sampleTable ''See the Recommendations below.'' =
      ''SEE THE RECOMMENDATIONS BELOW.''"
    by (simp add: strings_ToUpper_ascii [OF a2] asciiUpper_def)
  have s1: "serviceError (contentResponse ''All quiet.'') = None"
    and e1: "extractContent ''No summary generated.'' (contentResponse ''All quiet.'') =
      ''All quiet.''"
    and s2: "serviceError (contentResponse ''See the Recommendations below.'') = None"
    and e2: "extractContent ''No summary generated.''
      (contentResponse ''See the Recommendations below.'') = ''See the Recommendations below.''"
    by (simp_all add: contentResponse_reply)
  note t1 = fallback_iff_no_recommendation [OF s1 e1, where table = sampleTable
        and stamp = "''now''" and summaryText = "''report''"]
  note t2 = fallback_iff_no_recommendation [OF s2 e2, where table = sampleTable
        and stamp = "''now''" and summaryText = "''report''"]
  have o1: "enhanceSummaryWithRecommendations sampleTable ''now''
         (Decoded (contentResponse ''All quiet.'')) ''report'' =
       Inr (''# ENHANCED LOG SUMMARY WITH RECOMMENDATIONS'' @ [NL] @
            ''Generated on '' @ ''now'' @ [NL, NL] @ ''All quiet.'' @
            [NL, NL] @ ''## RECOMMENDATIONS'' @ [NL, NL] @
            ''The AI did not provide specific recommendations. Please review the summary to determine appropriate actions.'' @ [NL])"
    using t1 [THEN conjunct1] by (simp add: u1)
  have n1: "\<not> containsIgnoringCase ''All quiet.'' ''RECOMMENDATION''"
    using t1 [THEN conjunct2, THEN conjunct1, rule_format, OF a1] o1 by (rule iffD1)
  have o2: "enhanceSummaryWithRecommendations sampleTable ''now''
         (Decoded (contentResponse ''See the Recommendations below.'')) ''report'' =
       Inr (''# ENHANCED LOG SUMMARY WITH RECOMMENDATIONS'' @ [NL] @
            ''Generated on '' @ ''now'' @ [NL, NL] @ ''See the Recommendations below.'')"
    using t2 [THEN conjunct1] by (simp add: u2)
  have n2: "containsIgnoringCase ''See the Recommendations below.'' ''RECOMMENDATION''"
    using t2 [THEN conjunct2, THEN conjunct2, rule_format, OF a2] o2 by (rule iffD1)
  show ?thesis
    using a1 a2 s1 e1 s2 e2 n1 n2 o1 o2 by simp
qed

text \<open>
  C7 as first stated, for every reply, fails: the reply \<^const>\<open>dotlessReply\<close> spells the
  word with U+0131 for the \<open>i\<close>, so it does not contain "RECOMMENDATION"
  case-insensitively, but its upper-casing does and no section is added.
\<close>

theorem dotless_reply_gets_no_fallback:
  "\<not> containsIgnoringCase dotlessReply ''RECOMMENDATION''
   \<and> enhanceSummaryWithRecommendations sampleTable ''now''
         (Decoded (contentResponse dotlessReply)) ''report'' =
       Inr (''# ENHANCED LOG SUMMARY WITH RECOMMENDATIONS'' @ [NL] @
            ''Generated on now'' @ [NL, NL] @ dotlessReply)"
proof -
  have "\<not> strings_Contains (map asciiUpper dotlessReply) ''RECOMMENDATION''"
    by (simp add: dotlessReply_def asciiUpper_def)
  then have n: "\<not> containsIgnoringCase dotlessReply ''RECOMMENDATION''"
    unfolding containsIgnoringCase_iff .
  have "strings_Contains (strings_ToUpper sampleTable dotlessReply) ''RECOMMENDATION''"
    by (simp add: dotlessReply_upper)
  then have "enhanceSummaryWithRecommendations sampleTable ''now''
         (Decoded (contentResponse dotlessReply)) ''report'' =
       Inr (''# ENHANCED LOG SUMMARY WITH RECOMMENDATIONS'' @ [NL] @
            ''Generated on now'' @ [NL, NL] @ dotlessReply)"
    by (simp add: enhanceSummaryWithRecommendations_def formatEnhanced_def contentResponse_reply
        enhancedHeader_def)
  with n show ?thesis by simp
qed

lemma lineStart_eq:
  "lineStart i d =
     (if NL \<in> set (take (1000 - i) (drop i d))
      then tl (dropWhile (\<lambda>c. c \<noteq> NL) (drop i d)) else d)"
proof (induction i d rule: lineStart.induct)
  case (1 i d)
  show ?case
  proof (cases "i < 1000 \<and> i < length d")
    case False
    then show ?thesis by (subst lineStart.simps) auto
  next
    case True
    then have dr: "drop i d = d ! i # drop (Suc i) d"
      by (simp add: Cons_nth_drop_Suc)
    from True have tk: "1000 - i = Suc (1000 - Suc i)" by linarith
    show ?thesis
    proof (cases "d ! i = NL")
      case nl: True
      then show ?thesis using True
        by (subst lineStart.simps) (simp add: dr tk)
    next
      case nnl: False
      then have "lineStart i d = lineStart (i + 1) d"
        using True by (subst lineStart.simps) simp
      also have "\<dots> = (if NL \<in> set (take (1000 - (i + 1)) (drop (i + 1) d))
         then tl (dropWhile (\<lambda>c. c \<noteq> NL) (drop (i + 1) d)) else d)"
        using True nnl by (intro "1.IH") simp_all
      finally show ?thesis using nnl by (simp add: dr tk)
    qed
  qed
qed

text \<open>
  C9. A report of at most 100000 bytes is passed through unmodified. Of a larger one the
  enhancer keeps the trailing 100000 bytes; if a newline occurs in the first 1000 bytes
  of that portion, it drops everything through the first newline, and otherwise keeps
  the portion whole. The text kept is the text handed to
  \<open>enhanceSummaryWithRecommendations\<close>.
\<close>

theorem enhancer_truncation:
  "(length summaryData \<le> 100000 \<longrightarrow> truncateSummary summaryData = summaryData)
   \<and> (100000 < length summaryData \<longrightarrow>
        length (drop (length summaryData - 100000) summaryData) = 100000 \<and>
        (NL \<in> set (take 1000 (drop (length summaryData - 100000) summaryData)) \<longrightarrow>
           truncateSummary summaryData =
             tl (dropWhile (\<lambda>c. c \<noteq> NL) (drop (length summaryData - 100000) summaryData))) \<and>
        (NL \<notin> set (take 1000 (drop (length summaryData - 100000) summaryData)) \<longrightarrow>
           truncateSummary summaryData = drop (length summaryData - 100000) summaryData))
   \<and> (summaryFile ev = Inr summaryData \<longrightarrow>
        fst (enhancerMain ev) = Some (truncateSummary summaryData))"
  by (simp add: truncateSummary_def lineStart_eq enhancerMain_def Let_def
       split: sum.splits option.splits)

theorem enhancer_truncation_witness:
  "length ''short report'' \<le> 100000 \<and> truncateSummary ''short report'' = ''short report''
   \<and> 100000 < length (replicate 50000 CHR ''a'' @ ''ab'' @ [NL] @ replicate 99997 CHR ''c'')
   \<and> NL \<in> set (take 1000 (drop (length (replicate 50000 CHR ''a'' @ ''ab'' @ [NL] @ replicate 99997 CHR ''c'') - 100000)
                     (replicate 50000 CHR ''a'' @ ''ab'' @ [NL] @ replicate 99997 CHR ''c'')))
   \<and> truncateSummary (replicate 50000 CHR ''a'' @ ''ab'' @ [NL] @ replicate 99997 CHR ''c'')
       = replicate 99997 CHR ''c''
   \<and> 100000 < length (replicate 100001 CHR ''a'')
   \<and> NL \<notin> set (take 1000 (drop (length (replicate 100001 CHR ''a'') - 100000) (replicate 100001 CHR ''a'')))
   \<and> truncateSummary (replicate 100001 CHR ''a'') = replicate 100000 CHR ''a''
   \<and> summaryFile demoEnhancerEnv = Inr ''short report''
   \<and> fst (enhancerMain demoEnhancerEnv) = Some ''short report''"
  using enhancer_truncation [of "''short report''" demoEnhancerEnv]
    enhancer_truncation [of "replicate 50000 CHR ''a'' @ ''ab'' @ [NL] @ replicate 99997 CHR ''c''" demoEnhancerEnv]
    enhancer_truncation [of "replicate 100001 CHR ''a''" demoEnhancerEnv]
  by (simp add: dropWhile_append demoEnhancerEnv_def)

subsection \<open>The end of the run\<close>

lemma chunkStep_checkpointed:
  "list_all isCheckpoint (written s) \<Longrightarrow> length (written s) = length (chunks s) \<Longrightarrow>
   checkpointed (chunkStep exchange ls lpc cnt i s)"
  by (simp add: chunkStep_def checkpointed_def Let_def split: prod.splits)

lemma chunkLoop_checkpointed:
  "checkpointed s \<Longrightarrow> checkpointed (chunkLoop exchange ls lpc cnt i s)"
proof (induction exchange ls lpc cnt i s rule: chunkLoop.induct)
  case (1 exchange ls lpc cnt i s)
  show ?case
  proof (cases "i < length ls \<and> 0 < lpc")
    case True
    have "checkpointed (chunkStep exchange ls lpc cnt i s)"
      using "1.prems" by (intro chunkStep_checkpointed) (simp_all add: checkpointed_def)
    then have "checkpointed (chunkLoop exchange ls lpc cnt (i + lpc) (chunkStep exchange ls lpc cnt i s))"
      using True by (intro "1.IH") simp_all
    then show ?thesis using True by (subst chunkLoop.simps) simp
  next
    case False
    then show ?thesis using "1.prems" by (subst chunkLoop.simps) auto
  qed
qed

lemma chunkLoop_first:
  "ls \<noteq> [] \<Longrightarrow> 0 < lpc \<Longrightarrow> checkpointed (chunkLoop exchange ls lpc cnt 0 emptyRun)"
proof -
  assume a: "ls \<noteq> []" "0 < lpc"
  have "checkpointed (chunkStep exchange ls lpc cnt 0 emptyRun)"
    by (intro chunkStep_checkpointed) (simp_all add: emptyRun_def)
  then have "checkpointed (chunkLoop exchange ls lpc cnt (0 + lpc) (chunkStep exchange ls lpc cnt 0 emptyRun))"
    by (rule chunkLoop_checkpointed)
  then show ?thesis using a by (subst chunkLoop.simps) simp
qed


lemma chunkResults_snoc:
  "chunkResults exchange cnt (cs @ [c]) =
     chunkResults exchange cnt cs @
     [processLogChunk (exchange (length cs)) (strings_Join c [NL])
        (''Part '' @ showNat (length cs + 1) @ ''/'' @ showNat cnt)]"
  by (simp add: chunkResults_def exchangeResult_def nth_append)

lemma chunkStep_recorded:
  assumes "recorded exchange cnt s" and "i = length (chunks s) * lpc" and "0 < lpc"
  shows "recorded exchange cnt (chunkStep exchange ls lpc cnt i s)"
proof -
  have l: "partLabel i lpc cnt =
      ''Part '' @ showNat (length (chunks s) + 1) @ ''/'' @ showNat cnt"
    using assms(2,3) by (simp add: partLabel_def)
  obtain analysis isError where
    p: "processLogChunk (exchange (length (chunks s)))
          (strings_Join (slice ls i (chunkWindow ls lpc i)) [NL])
          (''Part '' @ showNat (length (chunks s) + 1) @ ''/'' @ showNat cnt) = (analysis, isError)"
    by (cases "processLogChunk (exchange (length (chunks s)))
          (strings_Join (slice ls i (chunkWindow ls lpc i)) [NL])
          (''Part '' @ showNat (length (chunks s) + 1) @ ''/'' @ showNat cnt)")
  show ?thesis
    using assms(1) p
    by (cases isError)
       (simp_all add: recorded_def chunkStep_def Let_def l chunkResults_snoc)
qed

lemma chunkLoop_recorded:
  "recorded exchange cnt s \<Longrightarrow> i = length (chunks s) * lpc \<Longrightarrow>
   recorded exchange cnt (chunkLoop exchange ls lpc cnt i s)"
proof (induction exchange ls lpc cnt i s rule: chunkLoop.induct)
  case (1 exchange ls lpc cnt i s)
  show ?case
  proof (cases "i < length ls \<and> 0 < lpc")
    case True
    have r: "recorded exchange cnt (chunkStep exchange ls lpc cnt i s)"
      using "1.prems" True by (intro chunkStep_recorded) simp_all
    have "i + lpc = length (chunks (chunkStep exchange ls lpc cnt i s)) * lpc"
      using "1.prems"(2) by (simp add: chunks_chunkStep)
    with r have "recorded exchange cnt
        (chunkLoop exchange ls lpc cnt (i + lpc) (chunkStep exchange ls lpc cnt i s))"
      using True by (intro "1.IH") simp_all
    then show ?thesis using True by (simp add: chunkLoop_step)
  next
    case False
    then show ?thesis using "1.prems"(1) by (subst chunkLoop.simps) auto
  qed
qed

lemma recorded_emptyRun: "recorded exchange cnt emptyRun"
  by (simp add: recorded_def emptyRun_def chunkResults_def)

lemma chunks_emptyRun: "chunks emptyRun = []"
  by (simp add: emptyRun_def)

lemma analyzerMain_run:
  assumes "analyzerMain ev = (r, None)"
    and "logFile ev = Inr logData"
    and "filterLogLines (time_Parse ev) (clock ev - hour) (clock ev) logData = ls"
  shows "ls \<noteq> [] \<and>
     r = (let s = chunkLoop (exchanges ev) ls (linesPerChunkFor (length ls))
                    (chunkCountFor (length ls)) 0 emptyRun
          in if successfulAnalyses s = [] then s
             else s\<lparr>written := written s @
                    [FinalReport (compileFinalSummary (finalStamp ev) (successfulAnalyses s)
                       (errorMessages s))]\<rparr>)"
proof (cases "ls = []")
  case True
  then show ?thesis using assms
    by (simp add: analyzerMain_def linesPerChunkFor_def goDiv_def)
next
  case False
  then have pos: "0 < linesPerChunkFor (length ls)" by (simp add: linesPerChunkFor_def)
  have "int (length ls) + int (linesPerChunkFor (length ls)) - 1 =
      int (length ls + linesPerChunkFor (length ls) - 1)" using pos by linarith
  then have gd: "goDiv (int (length ls) + int (linesPerChunkFor (length ls)) - 1)
       (int (linesPerChunkFor (length ls))) = Inr (int (chunkCountFor (length ls)))"
    using pos by (simp add: goDiv_nonneg zdiv_int chunkCountFor_def del: of_nat_add of_nat_diff)
  show ?thesis
    using assms False gd by (auto simp: analyzerMain_def Let_def)
qed

text \<open>
  C10. In every run that ends without a failure, the analyses are the texts of the chunks
  for which \<open>processLogChunk\<close> returned no error and the errors the texts of the others.
  If no chunk succeeded, every write of the output file is a checkpoint, one for each
  chunk, and the last one is the checkpoint of all the errors: the final-report step
  wrote nothing. If a chunk succeeded, the last write is the final report, after one
  checkpoint for each chunk. A final report is written iff at least one chunk succeeded.
\<close>

theorem final_report_iff_success:
  assumes "analyzerMain ev = (r, None)"
    and "logFile ev = Inr logData"
    and "filterLogLines (time_Parse ev) (clock ev - hour) (clock ev) logData = ls"
    and "chunkResults (exchanges ev) (chunkCountFor (length ls)) (chunks r) = results"
  shows "successfulAnalyses r = map fst (filter (\<lambda>p. \<not> snd p) results)
       \<and> errorMessages r = map fst (filter snd results)
       \<and> ((\<forall>p \<in> set results. snd p) \<longrightarrow>
            list_all isCheckpoint (written r) \<and> length (written r) = length (chunks r) \<and>
            written r \<noteq> [] \<and>
            last (written r) =
              Checkpoint ([NL, NL] @ ''## ERRORS'' @ [NL, NL] @
                          concat (map (\<lambda>p. fst p @ [NL, NL]) results)))
       \<and> ((\<exists>p \<in> set results. \<not> snd p) \<longrightarrow>
            list_all isCheckpoint (butlast (written r)) \<and>
            length (written r) = length (chunks r) + 1 \<and>
            last (written r) =
              FinalReport (compileFinalSummary (finalStamp ev) (successfulAnalyses r)
                             (errorMessages r)))
       \<and> ((\<exists>t. FinalReport t \<in> set (written r)) \<longleftrightarrow> (\<exists>p \<in> set results. \<not> snd p))"
proof -
  define s where "s = chunkLoop (exchanges ev) ls (linesPerChunkFor (length ls))
                    (chunkCountFor (length ls)) 0 emptyRun"
  have ne: "ls \<noteq> []" and r: "r = (if successfulAnalyses s = [] then s
             else s\<lparr>written := written s @
                    [FinalReport (compileFinalSummary (finalStamp ev) (successfulAnalyses s)
                       (errorMessages s))]\<rparr>)"
    using analyzerMain_run [OF assms(1,2,3)] by (simp_all add: s_def Let_def)
  have pos: "0 < linesPerChunkFor (length ls)" using ne by (simp add: linesPerChunkFor_def)
  have cp: "checkpointed s" unfolding s_def using ne pos by (rule chunkLoop_first)
  have "recorded (exchanges ev) (chunkCountFor (length ls)) s"
    unfolding s_def by (rule chunkLoop_recorded) (simp_all add: recorded_emptyRun chunks_emptyRun)
  moreover have ch: "chunks r = chunks s" using r by (simp split: if_splits)
  ultimately have rs: "successfulAnalyses s = map fst (filter (\<lambda>p. \<not> snd p) results)"
      "errorMessages s = map fst (filter snd results)"
    using assms(4) by (simp_all add: recorded_def)
  have fields: "successfulAnalyses r = successfulAnalyses s" "errorMessages r = errorMessages s"
    using r by (simp_all split: if_splits)
  have none: "successfulAnalyses s = [] \<longleftrightarrow> (\<forall>p \<in> set results. snd p)"
    by (auto simp: rs filter_empty_conv)
  have nofinal: "\<And>t. FinalReport t \<notin> set (written s)"
  proof
    fix t assume "FinalReport t \<in> set (written s)"
    moreover have "list_all isCheckpoint (written s)" using cp by (simp add: checkpointed_def)
    ultimately have "isCheckpoint (FinalReport t)" by (auto simp: list_all_iff)
    then show False by simp
  qed
  show ?thesis
  proof (cases "successfulAnalyses s = []")
    case True
    then have rs': "r = s" using r by simp
    have all: "\<forall>p \<in> set results. snd p" using True none by simp
    then have f: "filter snd results = results" by simp
    have "length results = length (chunks s)"
      using assms(4) ch by (auto simp: chunkResults_def)
    then have "results \<noteq> []" using cp by (auto simp: checkpointed_def)
    then have "progressText [] (map fst results) =
        [NL, NL] @ ''## ERRORS'' @ [NL, NL] @ concat (map (\<lambda>p. fst p @ [NL, NL]) results)"
    proof -
      have "\<And>acc xs. foldl (\<lambda>buffer err. buffer @ err @ [NL, NL]) acc xs =
          acc @ concat (map (\<lambda>e. e @ [NL, NL]) xs)"
      proof -
        fix acc :: string and xs :: "string list"
        show "foldl (\<lambda>buffer err. buffer @ err @ [NL, NL]) acc xs =
          acc @ concat (map (\<lambda>e. e @ [NL, NL]) xs)"
          by (induction xs arbitrary: acc) simp_all
      qed
      then show ?thesis using \<open>results \<noteq> []\<close>
        by (simp add: progressText_def comp_def)
    qed
    then show ?thesis
      using cp True all nofinal rs' rs f by (simp add: checkpointed_def)
  next
    case False
    then have "r = s\<lparr>written := written s @
             [FinalReport (compileFinalSummary (finalStamp ev) (successfulAnalyses s)
                (errorMessages s))]\<rparr>"
      using r by simp
    moreover have "\<exists>p \<in> set results. \<not> snd p" using False none by blast
    ultimately show ?thesis using cp rs by (auto simp: checkpointed_def)
  qed
qed

theorem final_report_iff_success_witness:
  "analyzerMain demoEnv =
     (\<lparr>successfulAnalyses = [], errorMessages = [''Failed to send request: connection refused''],
       written = [Checkpoint ([NL, NL] @ ''## ERRORS'' @ [NL, NL] @
                    ''Failed to send request: connection refused'' @ [NL, NL])],
       chunks = [[''2024-01-01T00:00:30+00:00 boot'']]\<rparr>, None)
   \<and> chunkResults (exchanges demoEnv) (chunkCountFor 1) [[''2024-01-01T00:00:30+00:00 boot'']] =
       [(''Failed to send request: connection refused'', True)]
   \<and> (\<forall>t. FinalReport t \<notin> set (written (fst (analyzerMain demoEnv))))
   \<and> analyzerMain okEnv =
     (\<lparr>successfulAnalyses = [''=== Part 1/1 ==='' @ [NL, NL] @ ''All quiet.''],
       errorMessages = [],
       written = [Checkpoint (''## SUCCESSFUL ANALYSES'' @ [NL, NL] @
                    ''=== Part 1/1 ==='' @ [NL, NL] @ ''All quiet.'' @ [NL, NL] @ ''---'' @ [NL, NL]),
                  FinalReport (compileFinalSummary ''Mon, 01 Jan 2024 00:01:40 UTC''
                    [''=== Part 1/1 ==='' @ [NL, NL] @ ''All quiet.''] [])],
       chunks = [[''2024-01-01T00:00:30+00:00 boot'']]\<rparr>, None)
   \<and> chunkResults (exchanges okEnv) (chunkCountFor 1) [[''2024-01-01T00:00:30+00:00 boot'']] =
       [(''=== Part 1/1 ==='' @ [NL, NL] @ ''All quiet.'', False)]
   \<and> (\<exists>t. FinalReport t \<in> set (written (fst (analyzerMain okEnv))))"
proof -
  let ?line = "''2024-01-01T00:00:30+00:00 boot''"
  have one: "showNat (Suc 0) = ''1''" by (simp add: showNat.simps)
  have cc: "chunkCountFor (Suc 0) = Suc 0" by (simp add: chunkCountFor_def linesPerChunkFor_def)
  have w: "chunkWindow [?line] (Suc 0) 0 = 1"
    by (simp add: chunkWindow_def slice_def estimateTokens_def maxTokensPerChunk_def)
  have hf: "analyzerMain demoEnv =
     (\<lparr>successfulAnalyses = [], errorMessages = [''Failed to send request: connection refused''],
       written = [Checkpoint ([NL, NL] @ ''## ERRORS'' @ [NL, NL] @
                    ''Failed to send request: connection refused'' @ [NL, NL])],
       chunks = [[?line]]\<rparr>, None)"
    by (simp add: analyzerMain_def demoEnv_def demo_filtered linesPerChunkFor_def goDiv_def
        chunkLoop.simps chunkStep_def w slice_def processLogChunk_def emptyRun_def Let_def
        progressText_def)
  have ho: "analyzerMain okEnv =
     (\<lparr>successfulAnalyses = [''=== Part 1/1 ==='' @ [NL, NL] @ ''All quiet.''],
       errorMessages = [],
       written = [Checkpoint (''## SUCCESSFUL ANALYSES'' @ [NL, NL] @
                    ''=== Part 1/1 ==='' @ [NL, NL] @ ''All quiet.'' @ [NL, NL] @ ''---'' @ [NL, NL]),
                  FinalReport (compileFinalSummary ''Mon, 01 Jan 2024 00:01:40 UTC''
                    [''=== Part 1/1 ==='' @ [NL, NL] @ ''All quiet.''] [])],
       chunks = [[?line]]\<rparr>, None)"
    by (simp add: analyzerMain_def okEnv_def demo_filtered linesPerChunkFor_def goDiv_def
        chunkLoop.simps chunkStep_def w slice_def processLogChunk_def emptyRun_def Let_def
        progressText_def analysisSep_def partLabel_def one contentResponse_def
        serviceError_def extractContent_def)
  have lf: "logFile demoEnv = Inr demoLog" and lo: "logFile okEnv = Inr demoLog"
    by (simp_all add: demoEnv_def okEnv_def)
  have ff: "filterLogLines (time_Parse demoEnv) (clock demoEnv - hour) (clock demoEnv) demoLog =
      [?line]"
    and fo: "filterLogLines (time_Parse okEnv) (clock okEnv - hour) (clock okEnv) demoLog =
      [?line]"
    by (simp_all add: demoEnv_def okEnv_def demo_filtered)
  have rf: "chunkResults (exchanges demoEnv) (chunkCountFor (length [?line]))
        (chunks \<lparr>successfulAnalyses = [],
           errorMessages = [''Failed to send request: connection refused''],
           written = [Checkpoint ([NL, NL] @ ''## ERRORS'' @ [NL, NL] @
                    ''Failed to send request: connection refused'' @ [NL, NL])],
           chunks = [[?line]]\<rparr>) =
       [(''Failed to send request: connection refused'', True)]"
    by (simp add: chunkResults_def exchangeResult_def demoEnv_def processLogChunk_def)
  have ro: "chunkResults (exchanges okEnv) (chunkCountFor (length [?line]))
        (chunks \<lparr>successfulAnalyses = [''=== Part 1/1 ==='' @ [NL, NL] @ ''All quiet.''],
           errorMessages = [],
           written = [Checkpoint (''## SUCCESSFUL ANALYSES'' @ [NL, NL] @
                    ''=== Part 1/1 ==='' @ [NL, NL] @ ''All quiet.'' @ [NL, NL] @ ''---'' @ [NL, NL]),
                  FinalReport (compileFinalSummary ''Mon, 01 Jan 2024 00:01:40 UTC''
                    [''=== Part 1/1 ==='' @ [NL, NL] @ ''All quiet.''] [])],
           chunks = [[?line]]\<rparr>) =
       [(''=== Part 1/1 ==='' @ [NL, NL] @ ''All quiet.'', False)]"
    by (simp add: chunkResults_def exchangeResult_def okEnv_def processLogChunk_def cc one
        contentResponse_def serviceError_def extractContent_def)
  note tf = final_report_iff_success [OF hf lf ff rf]
  note to = final_report_iff_success [OF ho lo fo ro]
  have nf: "\<forall>t. FinalReport t \<notin> set (written (fst (analyzerMain demoEnv)))"
    using tf [THEN conjunct2, THEN conjunct2, THEN conjunct2, THEN conjunct2] by (simp add: hf)
  have yf: "\<exists>t. FinalReport t \<in> set (written (fst (analyzerMain okEnv)))"
    using to [THEN conjunct2, THEN conjunct2, THEN conjunct2, THEN conjunct2] by (simp add: ho)
  show ?thesis
    using hf ho rf ro nf yf by (simp add: cc)
qed

end
